theory Spec2Isabelle
  imports Complex_Main
begin

section \<open>JavaScript numbers\<close>

text \<open>
  A JavaScript \<^verbatim>\<open>number\<close> is a binary64 value: a finite value, one of the two
  infinities, or NaN. The model keeps these four cases apart. Of binary64 rounding it
  keeps the two ends of the range: an arithmetic result whose magnitude reaches
  \<open>2 ^ 1024\<close> is an infinity (overflow), and one whose magnitude is at most
  \<open>2 ^ - 1075\<close>, half the least subnormal, is zero (underflow). In between, the
  rounding to 53 bits is not modelled (the result is the exact real), and neither is
  the sign of zero.
\<close>

datatype number = Fin real | PosInf | NegInf | NaN

definition overflow_limit :: real where
  "overflow_limit = 2 ^ 1024"

definition underflow_limit :: real where
  "underflow_limit = 1 / 2 ^ 1075"

definition fl :: "real \<Rightarrow> number" where
  "fl r =
     (if overflow_limit \<le> r then PosInf
      else if r \<le> - overflow_limit then NegInf
      else if \<bar>r\<bar> \<le> underflow_limit then Fin 0
      else Fin r)"

fun jadd :: "number \<Rightarrow> number \<Rightarrow> number" where
  "jadd NaN _ = NaN"
| "jadd _ NaN = NaN"
| "jadd (Fin a) (Fin b) = fl (a + b)"
| "jadd PosInf NegInf = NaN"
| "jadd NegInf PosInf = NaN"
| "jadd PosInf _ = PosInf"
| "jadd NegInf _ = NegInf"
| "jadd (Fin a) PosInf = PosInf"
| "jadd (Fin a) NegInf = NegInf"

fun jneg :: "number \<Rightarrow> number" where
  "jneg (Fin a) = Fin (- a)"
| "jneg PosInf = NegInf"
| "jneg NegInf = PosInf"
| "jneg NaN = NaN"

definition jsub :: "number \<Rightarrow> number \<Rightarrow> number" where
  "jsub x y = jadd x (jneg y)"

text \<open>The sign of an infinite product or quotient, from the signs of its operands.\<close>

definition signed_inf :: "bool \<Rightarrow> number" where
  "signed_inf positive = (if positive then PosInf else NegInf)"

fun jmul :: "number \<Rightarrow> number \<Rightarrow> number" where
  "jmul NaN _ = NaN"
| "jmul _ NaN = NaN"
| "jmul (Fin a) (Fin b) = fl (a * b)"
| "jmul (Fin a) PosInf = (if a = 0 then NaN else signed_inf (0 < a))"
| "jmul (Fin a) NegInf = (if a = 0 then NaN else signed_inf (a < 0))"
| "jmul PosInf (Fin b) = (if b = 0 then NaN else signed_inf (0 < b))"
| "jmul NegInf (Fin b) = (if b = 0 then NaN else signed_inf (b < 0))"
| "jmul PosInf PosInf = PosInf"
| "jmul NegInf NegInf = PosInf"
| "jmul PosInf NegInf = NegInf"
| "jmul NegInf PosInf = NegInf"

fun jdiv :: "number \<Rightarrow> number \<Rightarrow> number" where
  "jdiv NaN _ = NaN"
| "jdiv _ NaN = NaN"
| "jdiv (Fin a) (Fin b) =
     (if b = 0 then (if a = 0 then NaN else signed_inf (0 < a)) else fl (a / b))"
| "jdiv (Fin a) PosInf = Fin 0"
| "jdiv (Fin a) NegInf = Fin 0"
| "jdiv PosInf (Fin b) = signed_inf (0 \<le> b)"
| "jdiv NegInf (Fin b) = signed_inf (b < 0)"
| "jdiv PosInf _ = NaN"
| "jdiv NegInf _ = NaN"

fun jsqrt :: "number \<Rightarrow> number" where
  "jsqrt (Fin a) = (if a < 0 then NaN else Fin (sqrt a))"
| "jsqrt PosInf = PosInf"
| "jsqrt NegInf = NaN"
| "jsqrt NaN = NaN"

text \<open>\<^verbatim>\<open>x >= y\<close>: false as soon as one side is NaN.\<close>

fun jge :: "number \<Rightarrow> number \<Rightarrow> bool" where
  "jge NaN _ = False"
| "jge _ NaN = False"
| "jge (Fin a) (Fin b) = (b \<le> a)"
| "jge PosInf _ = True"
| "jge _ NegInf = True"
| "jge (Fin a) PosInf = False"
| "jge NegInf _ = False"

text \<open>\<^verbatim>\<open>x < y\<close>, likewise false when a side is NaN.\<close>

fun jlt :: "number \<Rightarrow> number \<Rightarrow> bool" where
  "jlt NaN _ = False"
| "jlt _ NaN = False"
| "jlt (Fin a) (Fin b) = (a < b)"
| "jlt PosInf _ = False"
| "jlt _ NegInf = False"
| "jlt (Fin a) PosInf = True"
| "jlt NegInf _ = True"

text \<open>The numbers that \<^verbatim>\<open>||\<close> and \<^verbatim>\<open>if\<close> take as false: zero and NaN.\<close>

definition falsy :: "number \<Rightarrow> bool" where
  "falsy x = (x = Fin 0 \<or> x = NaN)"

section \<open>utils.ts\<close>

text \<open>
  \<^verbatim>\<open>normalize\<close> (src/src/utils.ts, lines 22-25):
  \<^verbatim>\<open>const norm = Math.sqrt(v.reduce((s, x) => s + x * x, 0)) || 1;
  return v.map((x) => x / norm);\<close>
\<close>

definition sum_squares :: "number list \<Rightarrow> number" where
  "sum_squares v = foldl (\<lambda>s x. jadd s (jmul x x)) (Fin 0) v"

definition normalize :: "number list \<Rightarrow> number list" where
  "normalize v =
     (let n = jsqrt (sum_squares v);
          norm = (if falsy n then Fin 1 else n)
      in map (\<lambda>x. jdiv x norm) v)"


text \<open>
  \<^verbatim>\<open>cosine\<close> (src/src/utils.ts, lines 27-32):
  \<^verbatim>\<open>let s = 0; const n = Math.min(a.length, b.length);
  for (let i = 0; i < n; i++) s += a[i] * b[i]; return s;\<close>
  An array read is \<open>js_index\<close>: \<open>None\<close> stands for the \<^verbatim>\<open>undefined\<close> that a read
  past the end gives. The loop is instrumented with it: a read past the end makes the
  result \<open>None\<close>, so that a result \<open>Some s\<close> says that every read was in range.
\<close>

definition js_index :: "'a list \<Rightarrow> nat \<Rightarrow> 'a option" where
  "js_index xs i = (if i < length xs then Some (xs ! i) else None)"

function cosine_loop :: "number list \<Rightarrow> number list \<Rightarrow> nat \<Rightarrow> nat \<Rightarrow> number \<Rightarrow> number option" where
  "cosine_loop a b n i s =
     (if i < n then
        (case js_index a i of
           None \<Rightarrow> None
         | Some x \<Rightarrow>
             (case js_index b i of
                None \<Rightarrow> None
              | Some y \<Rightarrow> cosine_loop a b n (Suc i) (jadd s (jmul x y))))
      else Some s)"
  by pat_completeness auto
termination
  by (relation "measure (\<lambda>(a, b, n, i, s). n - i)") auto

definition cosine :: "number list \<Rightarrow> number list \<Rightarrow> number option" where
  "cosine a b = cosine_loop a b (min (length a) (length b)) 0 (Fin 0)"

text \<open>
  The dot product of two vectors of one length, as the reference for \<^verbatim>\<open>cosine\<close>:
  the products are added from the left, starting from zero.
\<close>

definition dot :: "number list \<Rightarrow> number list \<Rightarrow> number" where
  "dot xs ys = foldl (\<lambda>s (x, y). jadd s (jmul x y)) (Fin 0) (zip xs ys)"

section \<open>types.ts\<close>

text \<open>
  \<^verbatim>\<open>FileMetadata\<close> and \<^verbatim>\<open>FileRecord\<close>. An optional field is an \<open>option\<close>. A record read
  back from the store (\<^verbatim>\<open>rowToRecord\<close>) has no \<^verbatim>\<open>embedding\<close> field, so the record
  with the embedding extends the one without.
\<close>

record FileMetadata =
  m_id :: string
  m_path :: string
  m_filename :: string
  m_mimetype :: "string option"
  m_size :: "nat option"
  m_createdAt :: "string option"
  m_modifiedAt :: "string option"

record StoredRecord =
  r_id :: string
  r_metadata :: FileMetadata
  r_summary :: string

record FileRecord = StoredRecord +
  r_embedding :: "number list"

record SearchResult =
  sr_id :: string
  sr_score :: real
  sr_cosineSimilarity :: number
  sr_metadata :: FileMetadata
  sr_summary :: string

section \<open>The world outside the core\<close>

text \<open>
  What the source raises, as values. \<open>InvalidEmbedding\<close> and \<open>InvalidValues\<close> are the
  two errors thrown by the validation in \<^verbatim>\<open>upsert\<close>; \<open>VecTableError\<close> is a statement on
  the \<^verbatim>\<open>vec_files\<close> table that the database refuses; \<open>FsError\<close> is a failing
  \<^verbatim>\<open>fs.statSync\<close>; \<open>ProviderError\<close> is a failing call to the language-model service.
\<close>

datatype error = InvalidEmbedding | InvalidValues | VecTableError | FsError | ProviderError

record file_stat =
  st_isDirectory :: bool
  st_size :: nat
  st_birthtime :: string
  st_mtime :: string

text \<open>
  The content of the reranking model's answer, by what \<^verbatim>\<open>rerank\<close> can do with it:
  \<open>NoContent\<close> is a missing or empty content (replaced by the text \<^verbatim>\<open>[]\<close>),
  \<open>Unparseable\<close> a text on which \<^verbatim>\<open>JSON.parse\<close> throws, \<open>NonArray\<close> a JSON value
  that is not an array (\<^verbatim>\<open>parsed.sort\<close> is then not a function, which throws inside
  the same \<^verbatim>\<open>try\<close>), and \<open>Entries\<close> an array of \<^verbatim>\<open>{id, score}\<close> objects, the type the
  source casts the parsed value to. A score read from JSON is a finite number, hence a
  real here.
\<close>

record scored =
  s_id :: string
  s_score :: real

datatype reply = NoContent | Unparseable | NonArray | Entries "scored list"

text \<open>
  The collaborators of the core, as functions: the file system (\<^verbatim>\<open>fs.statSync\<close>,
  \<^verbatim>\<open>path.resolve\<close>, \<^verbatim>\<open>path.basename\<close>, the \<^verbatim>\<open>fast-glob\<close> listing of a directory),
  \<^verbatim>\<open>mime.lookup\<close>, \<^verbatim>\<open>uuidv4\<close> (the n-th identifier it hands out), the sqlite-vec
  extension (whether it creates a \<^verbatim>\<open>vec0\<close> table of a dimension, whether it accepts a
  vector for a table of a dimension, and the rows \<^verbatim>\<open>(id, distance)\<close> it answers a
  \<^verbatim>\<open>MATCH\<close> query with), and the language-model service (the summary of a file, the raw
  embedding of a text, the answer to a reranking prompt built from a query and a
  list of \<^verbatim>\<open>(id, summary)\<close> pairs).
\<close>

record env =
  statSync :: "string \<Rightarrow> file_stat option"
  path_resolve :: "string \<Rightarrow> string"
  path_basename :: "string \<Rightarrow> string"
  fast_glob :: "string \<Rightarrow> string list"
  mime_lookup :: "string \<Rightarrow> string option"
  uuidv4 :: "nat \<Rightarrow> string"
  vec_create_ok :: "nat \<Rightarrow> bool"
  vec_insert_ok :: "nat \<Rightarrow> number list \<Rightarrow> bool"
  vec_match :: "nat \<Rightarrow> (string \<times> number list) list \<Rightarrow> number list \<Rightarrow> int \<Rightarrow> error + (string \<times> number) list"
  chat_summarize :: "string \<Rightarrow> nat \<Rightarrow> error + string"
  embeddings_create :: "string \<Rightarrow> error + number list"
  chat_rerank :: "string \<Rightarrow> (string \<times> string) list \<Rightarrow> error + reply"

text \<open>The calls that reach the language-model service or the store's \<^verbatim>\<open>upsert\<close>.\<close>

datatype call =
  SummarizeCall string
| EmbedCall string
| RerankCall string "(string \<times> string) list"
| UpsertCall FileRecord

section \<open>sqlite.ts: the store on the sqlite-vec extension\<close>

text \<open>
  The variant of \<^verbatim>\<open>SqliteStore\<close> in src/unnamed/part_005: a table \<^verbatim>\<open>files\<close> with primary
  key \<^verbatim>\<open>id\<close> and no embedding column, and a virtual table \<^verbatim>\<open>vec_files\<close> of the
  extension, keyed by the same id. The rows of \<^verbatim>\<open>files\<close> are kept in insertion order.
  \<^verbatim>\<open>vec_files\<close> is \<open>None\<close> while the table does not exist, and otherwise its declared
  dimension with its rows. \<^verbatim>\<open>vectorTableReady\<close> is the private flag of the object.
\<close>

record file_row =
  col_id :: string
  col_path :: string
  col_filename :: string
  col_mimetype :: "string option"
  col_size :: "nat option"
  col_createdAt :: "string option"
  col_modifiedAt :: "string option"
  col_summary :: string

record SqliteStore =
  files :: "file_row list"
  vec_files :: "(nat \<times> (string \<times> number list) list) option"
  vectorTableReady :: bool

text \<open>\<^verbatim>\<open>s || undefined\<close> on an optional string: the empty string is falsy.\<close>

definition truthy_string :: "string option \<Rightarrow> string option" where
  "truthy_string x = (case x of None \<Rightarrow> None | Some s \<Rightarrow> if s = [] then None else Some s)"

text \<open>\<^verbatim>\<open>n || undefined\<close> on an optional number: zero is falsy.\<close>

definition truthy_nat :: "nat option \<Rightarrow> nat option" where
  "truthy_nat x = (case x of None \<Rightarrow> None | Some n \<Rightarrow> if n = 0 then None else Some n)"

text \<open>\<^verbatim>\<open>rowToRecord\<close> (part_005, lines 180-195).\<close>

definition rowToRecord :: "file_row \<Rightarrow> StoredRecord" where
  "rowToRecord row =
     \<lparr>r_id = col_id row,
      r_metadata =
        \<lparr>m_id = col_id row,
         m_path = col_path row,
         m_filename = col_filename row,
         m_mimetype = truthy_string (col_mimetype row),
         m_size = truthy_nat (col_size row),
         m_createdAt = truthy_string (col_createdAt row),
         m_modifiedAt = truthy_string (col_modifiedAt row)\<rparr>,
      r_summary = col_summary row\<rparr>"

text \<open>
  \<^verbatim>\<open>getById\<close> and \<^verbatim>\<open>getByPath\<close> (part_005, lines 112-122): the first row that the
  \<^verbatim>\<open>SELECT\<close> finds, or null.
\<close>

definition getById :: "SqliteStore \<Rightarrow> string \<Rightarrow> StoredRecord option" where
  "getById db i = map_option rowToRecord (find (\<lambda>row. col_id row = i) (files db))"

definition getByPath :: "SqliteStore \<Rightarrow> string \<Rightarrow> StoredRecord option" where
  "getByPath db filePath = map_option rowToRecord (find (\<lambda>row. col_path row = filePath) (files db))"

text \<open>
  \<^verbatim>\<open>ensureVectorTable\<close> (part_005, lines 44-63): nothing once the flag is set; otherwise
  the table is dropped and created anew with the dimension asked for, and the flag is
  set. When the creation fails the error is logged and swallowed: the table stays
  dropped and the flag unset.
\<close>

definition ensureVectorTable :: "env \<Rightarrow> nat \<Rightarrow> SqliteStore \<Rightarrow> SqliteStore" where
  "ensureVectorTable e embeddingDimension db =
     (if vectorTableReady db then db
      else if vec_create_ok e embeddingDimension
        then db\<lparr>vec_files := Some (embeddingDimension, []), vectorTableReady := True\<rparr>
        else db\<lparr>vec_files := None\<rparr>)"

text \<open>
  The row that \<^verbatim>\<open>upsert\<close> binds to its \<^verbatim>\<open>INSERT\<close> (part_005, lines 93-102), and the
  statement itself: \<^verbatim>\<open>INSERT ... ON CONFLICT(id) DO UPDATE SET\<close> every other column.
\<close>

definition row_of_record :: "env \<Rightarrow> FileRecord \<Rightarrow> file_row" where
  "row_of_record e record =
     (let metadata = r_metadata record in
      \<lparr>col_id = r_id record,
       col_path = m_path metadata,
       col_filename = m_filename metadata,
       col_mimetype =
         (case truthy_string (m_mimetype metadata) of
            Some m \<Rightarrow> Some m
          | None \<Rightarrow> truthy_string (mime_lookup e (m_filename metadata))),
       col_size = m_size metadata,
       col_createdAt = m_createdAt metadata,
       col_modifiedAt = m_modifiedAt metadata,
       col_summary = r_summary record\<rparr>)"

definition insert_or_update :: "file_row \<Rightarrow> file_row list \<Rightarrow> file_row list" where
  "insert_or_update row rows =
     (if col_id row \<in> set (map col_id rows)
      then map (\<lambda>old. if col_id old = col_id row then row else old) rows
      else rows @ [row])"

text \<open>
  \<^verbatim>\<open>upsert\<close> (part_005, lines 65-110). The result is the error thrown, if any, with
  the store as the call leaves it: the statements run one after the other outside any
  transaction, so an error of a later statement leaves the effect of the earlier ones.
  The parameter has the type \<^verbatim>\<open>number[]\<close>, so of the validation remain the tests for
  the empty array and for NaN. On \<^verbatim>\<open>vec_files\<close> the call deletes the row of the id and
  inserts the new one; both throw when the table does not exist, and the insertion
  throws when the extension refuses the vector.
\<close>

definition upsert :: "env \<Rightarrow> FileRecord \<Rightarrow> SqliteStore \<Rightarrow> error option \<times> SqliteStore" where
  "upsert e record db =
     (let embedding = r_embedding record in
      if embedding = [] then (Some InvalidEmbedding, db)
      else if \<not> list_all (\<lambda>n. n \<noteq> NaN) embedding then (Some InvalidValues, db)
      else
        let db1 = ensureVectorTable e (length embedding) db;
            db2 = db1\<lparr>files := insert_or_update (row_of_record e record) (files db1)\<rparr>
        in (case vec_files db2 of
              None \<Rightarrow> (Some VecTableError, db2)
            | Some (dimension, rows) \<Rightarrow>
                let rows' = filter (\<lambda>(i, v). i \<noteq> r_id record) rows in
                if vec_insert_ok e dimension embedding
                then (None, db2\<lparr>vec_files := Some (dimension, rows' @ [(r_id record, embedding)])\<rparr>)
                else (Some VecTableError, db2\<lparr>vec_files := Some (dimension, rows')\<rparr>)))"

text \<open>
  \<^verbatim>\<open>retrieveByEmbedding\<close> (part_005, lines 153-178): the \<^verbatim>\<open>MATCH\<close> query is the
  extension's; a row whose id has no record in \<^verbatim>\<open>files\<close> is dropped, and the score of
  the others is \<^verbatim>\<open>1 - distance\<close>.
\<close>

record candidate =
  c_rec :: StoredRecord
  c_score :: number

definition retrieveByEmbedding ::
    "env \<Rightarrow> SqliteStore \<Rightarrow> number list \<Rightarrow> int \<Rightarrow> error + candidate list" where
  "retrieveByEmbedding e db queryEmbedding topK =
     (case vec_files db of
        None \<Rightarrow> Inl VecTableError
      | Some (dimension, rows) \<Rightarrow>
          (case vec_match e dimension rows queryEmbedding topK of
             Inl err \<Rightarrow> Inl err
           | Inr vecResults \<Rightarrow>
               Inr (List.map_filter
                 (\<lambda>(i, distance).
                    case getById db i of
                      None \<Rightarrow> None
                    | Some fileRecord \<Rightarrow>
                        Some \<lparr>c_rec = fileRecord, c_score = jsub (Fin 1) distance\<rparr>)
                 vecResults)))"

section \<open>nlp.ts\<close>

text \<open>
  \<^verbatim>\<open>Array.prototype.slice(start, end)\<close> for integer arguments: a negative index counts
  from the end of the array, and both ends are clamped to the array.
\<close>

definition clamp_index :: "nat \<Rightarrow> int \<Rightarrow> nat" where
  "clamp_index len k = (if k < 0 then nat (int len + k) else min (nat k) len)"

definition js_slice :: "'a list \<Rightarrow> int \<Rightarrow> int \<Rightarrow> 'a list" where
  "js_slice xs start end =
     (let from = clamp_index (length xs) start; to = clamp_index (length xs) end
      in take (to - from) (drop from xs))"

text \<open>
  \<^verbatim>\<open>embedText\<close> (src/unnamed/part_008, lines 152-174): the raw vector of the service,
  normalized. An error of the call is logged and thrown again.
\<close>

definition embedText :: "env \<Rightarrow> string \<Rightarrow> error + number list" where
  "embedText e text =
     (case embeddings_create e text of
        Inl err \<Rightarrow> Inl err
      | Inr vec \<Rightarrow> Inr (normalize vec))"

text \<open>
  \<^verbatim>\<open>summarizeFile\<close> (part_008, lines 118-150) reads at most \<^verbatim>\<open>maxChars\<close> bytes of the file
  and asks the service for a summary of them; what it returns is here the answer
  \<open>chat_summarize\<close> of the outside world for that file (the token counts are left
  out).
\<close>

definition summarizeFile :: "env \<Rightarrow> string \<Rightarrow> nat \<Rightarrow> error + string" where
  "summarizeFile e filePath maxChars = chat_summarize e filePath maxChars"

text \<open>
  \<^verbatim>\<open>rerank\<close> (part_008, lines 176-198). The call to the service stands outside the
  \<^verbatim>\<open>try\<close>: its error is the caller's. Inside the \<^verbatim>\<open>try\<close> the parsed array is sorted with
  the comparator \<^verbatim>\<open>b.score - a.score\<close> (a stable sort by descending score) and cut to
  its first \<^verbatim>\<open>topK\<close> entries; whatever throws there leads to the fallback, which gives
  the first \<^verbatim>\<open>topK\<close> candidates the scores \<^verbatim>\<open>candidates.length - i\<close>.
\<close>

definition fallback_scores :: "(string \<times> string) list \<Rightarrow> int \<Rightarrow> scored list" where
  "fallback_scores candidates topK =
     map (\<lambda>(i, c). \<lparr>s_id = fst c, s_score = real (length candidates) - real i\<rparr>)
       (enumerate 0 (js_slice candidates 0 topK))"

definition rerank :: "env \<Rightarrow> string \<Rightarrow> (string \<times> string) list \<Rightarrow> int \<Rightarrow> error + scored list" where
  "rerank e query candidates topK =
     (case chat_rerank e query candidates of
        Inl err \<Rightarrow> Inl err
      | Inr content \<Rightarrow>
          Inr (case content of
                 NoContent \<Rightarrow> js_slice (sort_key (\<lambda>r. - s_score r) []) 0 topK
               | Entries parsed \<Rightarrow> js_slice (sort_key (\<lambda>r. - s_score r) parsed) 0 topK
               | Unparseable \<Rightarrow> fallback_scores candidates topK
               | NonArray \<Rightarrow> fallback_scores candidates topK))"

section \<open>store.ts: SemanticStore\<close>

definition DEFAULT_TOP_K :: int where "DEFAULT_TOP_K = 5"
definition CANDIDATE_MULTIPLIER :: int where "CANDIDATE_MULTIPLIER = 3"
definition MIN_CANDIDATES :: int where "MIN_CANDIDATES = 10"

record config =
  maxChars :: nat
  DEFAULT_MIN_SIMILARITY :: number
  DEFAULT_MIN_SCORE :: number

record search_opts =
  topK :: "int option"
  minSimilarity :: "number option"
  minScore :: "number option"

text \<open>
  \<^verbatim>\<open>search\<close>, in the variant that takes the two thresholds (the second document of
  src/src/config-manager.ts, lines 271-310; the variant in src/src/store.ts, lines
  133-158, has the option \<^verbatim>\<open>topK\<close> only and neither filter). \<open>join_results\<close> is its
  \<^verbatim>\<open>reranked.map(...).filter(result => result !== null)\<close>: in \<^verbatim>\<open>new Map(entries)\<close> the last
  entry of a key is the one that stays. The value is the result with the calls made
  to the service, in order.
\<close>

definition join_results :: "candidate list \<Rightarrow> scored list \<Rightarrow> SearchResult list" where
  "join_results filteredCandidates reranked =
     (let byId = map_of (rev (map (\<lambda>c. (r_id (c_rec c), c)) filteredCandidates))
      in List.map_filter
           (\<lambda>r. case byId (s_id r) of
                   None \<Rightarrow> None
                 | Some c \<Rightarrow>
                     Some \<lparr>sr_id = s_id r,
                           sr_score = s_score r,
                           sr_cosineSimilarity = c_score c,
                           sr_metadata = r_metadata (c_rec c),
                           sr_summary = r_summary (c_rec c)\<rparr>)
           reranked)"

text \<open>The options with their defaults (\<^verbatim>\<open>opts?.topK ?? DEFAULT_CONFIG.DEFAULT_TOP_K\<close>, ...).\<close>

definition opt_topK :: "search_opts \<Rightarrow> int" where
  "opt_topK opts = (case topK opts of None \<Rightarrow> DEFAULT_TOP_K | Some k \<Rightarrow> k)"

definition opt_minSimilarity :: "config \<Rightarrow> search_opts \<Rightarrow> number" where
  "opt_minSimilarity cfg opts =
     (case minSimilarity opts of None \<Rightarrow> DEFAULT_MIN_SIMILARITY cfg | Some m \<Rightarrow> m)"

definition opt_minScore :: "config \<Rightarrow> search_opts \<Rightarrow> number" where
  "opt_minScore cfg opts = (case minScore opts of None \<Rightarrow> DEFAULT_MIN_SCORE cfg | Some m \<Rightarrow> m)"

text \<open>\<^verbatim>\<open>Math.max(topK * CANDIDATE_MULTIPLIER, MIN_CANDIDATES)\<close>.\<close>

definition candidate_limit :: "int \<Rightarrow> int" where
  "candidate_limit k = max (k * CANDIDATE_MULTIPLIER) MIN_CANDIDATES"

text \<open>The argument that \<^verbatim>\<open>search\<close> hands to \<^verbatim>\<open>rerank\<close>: id and summary of each candidate.\<close>

definition summaries_of :: "candidate list \<Rightarrow> (string \<times> string) list" where
  "summaries_of cs = map (\<lambda>c. (r_id (c_rec c), r_summary (c_rec c))) cs"

definition search ::
    "env \<Rightarrow> config \<Rightarrow> SqliteStore \<Rightarrow> string \<Rightarrow> search_opts \<Rightarrow> (error + SearchResult list) \<times> call list" where
  "search e cfg store query opts =
     (let k = opt_topK opts;
          minSim = opt_minSimilarity cfg opts;
          minSc = opt_minScore cfg opts
      in case embedText e query of
           Inl err \<Rightarrow> (Inl err, [EmbedCall query])
         | Inr qvec \<Rightarrow>
             (case retrieveByEmbedding e store qvec (candidate_limit k) of
                Inl err \<Rightarrow> (Inl err, [EmbedCall query])
              | Inr candidates \<Rightarrow>
                  let filteredCandidates = filter (\<lambda>c. jge (c_score c) minSim) candidates in
                  if filteredCandidates = [] then (Inr [], [EmbedCall query])
                  else
                    let calls = [EmbedCall query, RerankCall query (summaries_of filteredCandidates)]
                    in (case rerank e query (summaries_of filteredCandidates) k of
                          Inl err \<Rightarrow> (Inl err, calls)
                        | Inr reranked \<Rightarrow>
                            (Inr (filter (\<lambda>result. jge (Fin (sr_score result)) minSc)
                                    (join_results filteredCandidates reranked)),
                             calls))))"

text \<open>
  The state that indexing works on: the store, the number of identifiers \<^verbatim>\<open>uuidv4\<close> has
  handed out, and the log of the calls made, each with the file it was made for.
\<close>

record state =
  db :: SqliteStore
  uuid_calls :: nat
  log :: "(string \<times> call) list"

text \<open>
  \<^verbatim>\<open>indexFile\<close> (src/src/store.ts, lines 91-119) in two parts, cut at its first
  \<^verbatim>\<open>await\<close>. \<open>indexFile_begin\<close> is the part that runs at once when the function is
  called: \<^verbatim>\<open>statSync\<close>, the lookup of the resolved path in the store and the choice of
  the id, \<^verbatim>\<open>existingRecord?.id || uuidv4()\<close>. \<open>indexFile_rest\<close> is what follows: the
  summary, its embedding, the record and its \<^verbatim>\<open>upsert\<close>.
\<close>

record prepared =
  p_filePath :: string
  p_stat :: file_stat
  p_filename :: string
  p_resolvedPath :: string
  p_existingRecord :: "StoredRecord option"
  p_id :: string

definition indexFile_begin :: "env \<Rightarrow> state \<Rightarrow> string \<Rightarrow> (error + prepared) \<times> state" where
  "indexFile_begin e st filePath =
     (case statSync e filePath of
        None \<Rightarrow> (Inl FsError, st)
      | Some stat \<Rightarrow>
          let filename = path_basename e filePath;
              resolvedPath = path_resolve e filePath;
              existingRecord = getByPath (db st) resolvedPath;
              p = \<lparr>p_filePath = filePath, p_stat = stat, p_filename = filename,
                   p_resolvedPath = resolvedPath, p_existingRecord = existingRecord, p_id = []\<rparr>
          in (case truthy_string (map_option r_id existingRecord) of
                Some i \<Rightarrow> (Inr (p\<lparr>p_id := i\<rparr>), st)
              | None \<Rightarrow>
                  (Inr (p\<lparr>p_id := uuidv4 e (uuid_calls st)\<rparr>),
                   st\<lparr>uuid_calls := Suc (uuid_calls st)\<rparr>)))"

definition record_of_prepared :: "prepared \<Rightarrow> string \<Rightarrow> number list \<Rightarrow> FileRecord" where
  "record_of_prepared p summary embedding =
     \<lparr>r_id = p_id p,
      r_metadata =
        \<lparr>m_id = p_id p,
         m_path = p_resolvedPath p,
         m_filename = p_filename p,
         m_mimetype = None,
         m_size = Some (st_size (p_stat p)),
         m_createdAt =
           (case (case p_existingRecord p of
                    None \<Rightarrow> None
                  | Some existing \<Rightarrow> truthy_string (m_createdAt (r_metadata existing))) of
              Some created \<Rightarrow> Some created
            | None \<Rightarrow> Some (st_birthtime (p_stat p))),
         m_modifiedAt = Some (st_mtime (p_stat p))\<rparr>,
      r_summary = summary,
      r_embedding = embedding\<rparr>"

definition indexFile_rest :: "env \<Rightarrow> config \<Rightarrow> prepared \<Rightarrow> state \<Rightarrow> error option \<times> state" where
  "indexFile_rest e cfg p st =
     (let filePath = p_filePath p;
          st1 = st\<lparr>log := log st @ [(filePath, SummarizeCall filePath)]\<rparr>
      in case summarizeFile e filePath (maxChars cfg) of
           Inl err \<Rightarrow> (Some err, st1)
         | Inr summary \<Rightarrow>
             let st2 = st1\<lparr>log := log st1 @ [(filePath, EmbedCall summary)]\<rparr>
             in (case embedText e summary of
                   Inl err \<Rightarrow> (Some err, st2)
                 | Inr embedding \<Rightarrow>
                     let rec = record_of_prepared p summary embedding;
                         st3 = st2\<lparr>log := log st2 @ [(filePath, UpsertCall rec)]\<rparr>;
                         (thrown, db') = upsert e rec (db st3)
                     in (thrown, st3\<lparr>db := db'\<rparr>)))"

definition indexFile :: "env \<Rightarrow> config \<Rightarrow> state \<Rightarrow> string \<Rightarrow> error option \<times> state" where
  "indexFile e cfg st filePath =
     (case indexFile_begin e st filePath of
        (Inl err, st') \<Rightarrow> (Some err, st')
      | (Inr p, st') \<Rightarrow> indexFile_rest e cfg p st')"

text \<open>
  A sequence of calls of \<^verbatim>\<open>indexFile\<close>, each awaited before the next; the outside world
  may differ from call to call.
\<close>

fun indexFiles :: "config \<Rightarrow> (env \<times> string) list \<Rightarrow> state \<Rightarrow> state" where
  "indexFiles cfg [] st = st"
| "indexFiles cfg ((e, filePath) # calls) st = indexFiles cfg calls (snd (indexFile e cfg st filePath))"













section \<open>Reference notions and a sample store\<close>


text \<open>
  A store with three indexed files, and an outside world for it: the extension
  answers every \<^verbatim>\<open>MATCH\<close> query with the distances 0.1, 0.5 and 0.9 for the three ids
  (similarities 0.9, 0.5 and 0.1), and the reranking model with the given content. They
  serve as concrete inputs on which the theorems below are instantiated.
\<close>

definition sample_row :: "string \<Rightarrow> file_row" where
  "sample_row i =
     \<lparr>col_id = i, col_path = ''/docs/'' @ i @ ''.md'', col_filename = i @ ''.md'',
      col_mimetype = Some ''text/markdown'', col_size = Some 10,
      col_createdAt = Some ''2024-01-01'', col_modifiedAt = Some ''2024-01-02'',
      col_summary = ''about '' @ i\<rparr>"

definition sample_store :: SqliteStore where
  "sample_store =
     \<lparr>files = [sample_row ''a'', sample_row ''b'', sample_row ''c''],
      vec_files = Some (2, [(''a'', [Fin 1, Fin 0]), (''b'', [Fin 0, Fin 1]), (''c'', [Fin 0, Fin 1])]),
      vectorTableReady = True\<rparr>"

definition sample_env :: "reply \<Rightarrow> env" where
  "sample_env content =
     \<lparr>statSync = (\<lambda>f. if f = ''/docs'' then
                         Some \<lparr>st_isDirectory = True, st_size = 0,
                               st_birthtime = ''2024-01-01'', st_mtime = ''2024-01-01''\<rparr>
                       else Some \<lparr>st_isDirectory = False, st_size = 12,
                                  st_birthtime = ''2024-02-01'', st_mtime = ''2024-02-02''\<rparr>),
      path_resolve = (\<lambda>f. f),
      path_basename = (\<lambda>f. drop 6 f),
      fast_glob = (\<lambda>d. [''/docs/a.md'', ''/docs/d.md'', ''/docs/e.png'']),
      mime_lookup = (\<lambda>f. Some ''text/markdown''),
      uuidv4 = (\<lambda>n. ''uuid-'' @ replicate (Suc n) CHR ''x''),
      vec_create_ok = (\<lambda>d. True),
      vec_insert_ok = (\<lambda>d v. length v = d),
      vec_match = (\<lambda>d rows q k. Inr [(''a'', Fin (1 / 10)), (''b'', Fin (1 / 2)), (''c'', Fin (9 / 10))]),
      chat_summarize = (\<lambda>f n. Inr (''summary of '' @ f)),
      embeddings_create = (\<lambda>t. Inr [Fin 3, Fin 4]),
      chat_rerank = (\<lambda>q cs. Inr content)\<rparr>"

definition sample_config :: config where
  "sample_config = \<lparr>maxChars = 1000, DEFAULT_MIN_SIMILARITY = Fin (1 / 10), DEFAULT_MIN_SCORE = Fin 0\<rparr>"

definition sample_result :: "string \<Rightarrow> real \<Rightarrow> real \<Rightarrow> SearchResult" where
  "sample_result i score similarity =
     \<lparr>sr_id = i, sr_score = score, sr_cosineSimilarity = Fin similarity,
      sr_metadata = r_metadata (rowToRecord (sample_row i)), sr_summary = ''about '' @ i\<rparr>"

definition sample_candidate :: "string \<Rightarrow> real \<Rightarrow> candidate" where
  "sample_candidate i similarity = \<lparr>c_rec = rowToRecord (sample_row i), c_score = Fin similarity\<rparr>"

definition sample_record :: "string \<Rightarrow> number list \<Rightarrow> FileRecord" where
  "sample_record i embedding =
     \<lparr>r_id = i,
      r_metadata = \<lparr>m_id = i, m_path = ''/docs/'' @ i @ ''.md'', m_filename = i @ ''.md'',
                     m_mimetype = None, m_size = Some 12, m_createdAt = Some ''2024-02-01'',
                     m_modifiedAt = Some ''2024-02-02''\<rparr>,
      r_summary = ''new summary of '' @ i,
      r_embedding = embedding\<rparr>"

text \<open>
  The invariant of the \<^verbatim>\<open>files\<close> table that indexing keeps: the ids are distinct (the
  primary key), the paths are distinct (one record per path), and no id is empty.
\<close>

definition store_inv :: "SqliteStore \<Rightarrow> bool" where
  "store_inv store =
     (distinct (map col_id (files store)) \<and> distinct (map col_path (files store)) \<and>
      [] \<notin> set (map col_id (files store)))"

text \<open>The id that \<^verbatim>\<open>indexFile\<close> gives the record of a path: \<^verbatim>\<open>existingRecord?.id || uuidv4()\<close>.\<close>

definition chosen_id :: "env \<Rightarrow> state \<Rightarrow> string \<Rightarrow> string" where
  "chosen_id e st P =
     (case truthy_string (map_option r_id (getByPath (db st) P)) of
        Some i \<Rightarrow> i
      | None \<Rightarrow> uuidv4 e (uuid_calls st))"

text \<open>The state of a fresh store object on an empty database.\<close>

definition empty_state :: state where
  "empty_state = \<lparr>db = \<lparr>files = [], vec_files = None, vectorTableReady = False\<rparr>, uuid_calls = 0, log = []\<rparr>"





section \<open>Properties of utils.ts\<close>

lemma jmul_commute: "jmul x y = jmul y x"
  by (cases x; cases y) (simp_all add: mult.commute)

lemma foldl_zip_commute:
  "foldl (\<lambda>s (x, y). jadd s (jmul x y)) s (zip xs ys) =
   foldl (\<lambda>s (x, y). jadd s (jmul x y)) s (zip ys xs)"
proof (induction xs arbitrary: ys s)
  case Nil
  then show ?case by simp
next
  case (Cons x xs)
  then show ?case
    by (cases ys) (simp_all add: jmul_commute)
qed

lemma dot_commute: "dot xs ys = dot ys xs"
  unfolding dot_def by (rule foldl_zip_commute)

lemma cosine_loop_in_range:
  "n \<le> length a \<Longrightarrow> n \<le> length b \<Longrightarrow> i \<le> n \<Longrightarrow>
   cosine_loop a b n i s =
   Some (foldl (\<lambda>s (x, y). jadd s (jmul x y)) s (zip (drop i (take n a)) (drop i (take n b))))"
proof (induction a b n i s rule: cosine_loop.induct)
  case (1 a b n i s)
  show ?case
  proof (cases "i < n")
    case False
    with "1.prems" show ?thesis by simp
  next
    case True
    with "1.prems" have ia: "i < length (take n a)" and ib: "i < length (take n b)"
      by simp_all
    have da: "drop i (take n a) = a ! i # drop (Suc i) (take n a)"
      using Cons_nth_drop_Suc [OF ia] True by simp
    have db: "drop i (take n b) = b ! i # drop (Suc i) (take n b)"
      using Cons_nth_drop_Suc [OF ib] True by simp
    have ja: "js_index a i = Some (a ! i)" and jb: "js_index b i = Some (b ! i)"
      using True "1.prems" by (simp_all add: js_index_def)
    have "cosine_loop a b n i s = cosine_loop a b n (Suc i) (jadd s (jmul (a ! i) (b ! i)))"
      using True ja jb by simp
    also have "\<dots> = Some (foldl (\<lambda>s (x, y). jadd s (jmul x y)) (jadd s (jmul (a ! i) (b ! i)))
        (zip (drop (Suc i) (take n a)) (drop (Suc i) (take n b))))"
      using "1.IH" [OF True ja jb] "1.prems" True by simp
    finally show ?thesis
      by (simp add: da db)
  qed
qed

text \<open>
  C10. \<^verbatim>\<open>cosine(a, b)\<close> always returns a number, reading no index past the end of
  either array: it is the dot product of the first \<open>min (length a) (length b)\<close>
  components of the two vectors, whatever their lengths; and
  \<^verbatim>\<open>cosine(a, b) = cosine(b, a)\<close>.
\<close>

theorem cosine_prefix_dot_symmetric:
  "cosine a b =
     Some (dot (take (min (length a) (length b)) a) (take (min (length a) (length b)) b)) \<and>
   cosine a b = cosine b a"
proof -
  have eq: "cosine a b =
      Some (dot (take (min (length a) (length b)) a) (take (min (length a) (length b)) b))" for a b
    unfolding cosine_def dot_def
    using cosine_loop_in_range [of "min (length a) (length b)" a b 0 "Fin 0"] by simp
  have "cosine a b = cosine b a"
    unfolding eq by (simp add: dot_commute min.commute)
  with eq show ?thesis by simp
qed

subsection \<open>normalize\<close>


lemma underflow_limit_pos: "0 < underflow_limit"
  by (simp add: underflow_limit_def)

lemma overflow_limit_gt_1: "1 < overflow_limit"
  by (simp add: overflow_limit_def)

lemma overflow_limit_square: "overflow_limit = (2 ^ 512)\<^sup>2"
  by (simp add: overflow_limit_def power_mult [symmetric])


lemma fl_in_range: "\<bar>r\<bar> < overflow_limit \<Longrightarrow> r = 0 \<or> underflow_limit < \<bar>r\<bar> \<Longrightarrow> fl r = Fin r"
  using underflow_limit_pos by (auto simp: fl_def)

lemma sum_squares_fold:
  assumes "a = 0 \<or> underflow_limit < a" "0 \<le> a"
    and "a + (\<Sum>r\<leftarrow>rs. r * r) < overflow_limit"
    and "\<forall>r\<in>set rs. r = 0 \<or> underflow_limit < r * r"
  shows "foldl (\<lambda>s x. jadd s (jmul x x)) (Fin a) (map Fin rs) = Fin (a + (\<Sum>r\<leftarrow>rs. r * r))"
  using assms
proof (induction rs arbitrary: a)
  case Nil
  then show ?case by simp
next
  case (Cons r rs)
  have nn: "0 \<le> (\<Sum>r\<leftarrow>rs. r * r)"
    by (rule sum_list_nonneg) auto
  have r0: "0 \<le> r * r" by simp
  have r2: "\<bar>r * r\<bar> < overflow_limit"
    using Cons.prems nn r0 by (simp add: abs_mult)
  have rcase: "r = 0 \<or> underflow_limit < r * r"
    using Cons.prems(4) by simp
  have rr: "r * r = 0 \<or> underflow_limit < \<bar>r * r\<bar>"
    using rcase by (auto simp: abs_mult)
  have m: "jmul (Fin r) (Fin r) = Fin (r * r)"
    using fl_in_range [OF r2 rr] by simp
  have ar: "\<bar>a + r * r\<bar> < overflow_limit"
    using Cons.prems nn r0 by simp
  have ar0: "a + r * r = 0 \<or> underflow_limit < a + r * r"
  proof (cases "r = 0")
    case True
    then show ?thesis using Cons.prems(1) by simp
  next
    case False
    with rcase have "underflow_limit < r * r" by simp
    then show ?thesis using Cons.prems(2) by linarith
  qed
  have ar0': "a + r * r = 0 \<or> underflow_limit < \<bar>a + r * r\<bar>"
    using ar0 by linarith
  have step: "jadd (Fin a) (jmul (Fin r) (Fin r)) = Fin (a + r * r)"
    using fl_in_range [OF ar ar0'] m by simp
  have "foldl (\<lambda>s x. jadd s (jmul x x)) (Fin (a + r * r)) (map Fin rs) =
      Fin (a + r * r + (\<Sum>r\<leftarrow>rs. r * r))"
  proof (rule Cons.IH)
    show "a + r * r = 0 \<or> underflow_limit < a + r * r" by (rule ar0)
    show "0 \<le> a + r * r" using Cons.prems(2) r0 by simp
    show "a + r * r + (\<Sum>r\<leftarrow>rs. r * r) < overflow_limit" using Cons.prems(3) by (simp add: add.assoc)
    show "\<forall>r\<in>set rs. r = 0 \<or> underflow_limit < r * r" using Cons.prems(4) by simp
  qed
  then show ?case
    using step by (simp add: add.assoc)
qed

lemma elem_square_le_sum: "r \<in> set rs \<Longrightarrow> r * r \<le> (\<Sum>x\<leftarrow>rs. x * (x::real))"
proof (induction rs)
  case Nil
  then show ?case by simp
next
  case (Cons x xs)
  have nn: "0 \<le> (\<Sum>x\<leftarrow>xs. x * x)"
    by (rule sum_list_nonneg) auto
  show ?case
  proof (cases "r = x")
    case True
    then show ?thesis using nn by simp
  next
    case False
    with Cons have "r * r \<le> (\<Sum>x\<leftarrow>xs. x * x)" by simp
    moreover have "0 \<le> x * x" by simp
    ultimately show ?thesis by (simp add: add_increasing)
  qed
qed

lemma abs_above_of_square:
  assumes "underflow_limit < r * r"
  shows "1 / 2 ^ 538 < \<bar>r\<bar>"
proof (rule ccontr)
  assume "\<not> 1 / 2 ^ 538 < \<bar>r\<bar>"
  then have le: "\<bar>r\<bar> \<le> 1 / 2 ^ 538" by simp
  have "\<bar>r\<bar> * \<bar>r\<bar> \<le> (1 / 2 ^ 538) * (1 / 2 ^ 538)"
    by (rule mult_mono [OF le le]) simp_all
  also have "\<dots> \<le> underflow_limit" by (simp add: underflow_limit_def)
  finally have "r * r \<le> underflow_limit" by (simp add: abs_mult_self_eq)
  with assms show False by simp
qed

lemma quotient_in_range:
  assumes pos: "0 < S" and lt: "S < overflow_limit" and le: "r * r \<le> S"
    and under: "r = 0 \<or> underflow_limit < r * r"
  shows "jdiv (Fin r) (Fin (sqrt S)) = Fin (r / sqrt S)"
proof -
  define h :: real where "h = 2 ^ 512"
  define t :: real where "t = 1 / 2 ^ 538"
  have h_pos: "0 < h" by (simp add: h_def)
  have h_sq: "overflow_limit = h\<^sup>2"
    by (simp add: h_def overflow_limit_def power_mult [symmetric])
  have t_h: "underflow_limit \<le> t / h"
    by (simp add: t_def h_def underflow_limit_def)
  have sq_pos: "0 < sqrt S" using pos by simp
  have "sqrt S < sqrt (h\<^sup>2)"
    using lt by (simp only: real_sqrt_less_iff h_sq)
  then have sq_lt: "sqrt S < h"
    using h_pos by simp
  have "\<bar>r\<bar> = sqrt (r * r)" by simp
  also have "\<dots> \<le> sqrt S" using le by (simp only: real_sqrt_le_iff)
  finally have abs_le: "\<bar>r\<bar> \<le> sqrt S" .
  then have "\<bar>r / sqrt S\<bar> \<le> 1"
    using sq_pos by simp
  then have hi: "\<bar>r / sqrt S\<bar> < overflow_limit"
    using overflow_limit_gt_1 by linarith
  have lo: "r / sqrt S = 0 \<or> underflow_limit < \<bar>r / sqrt S\<bar>"
  proof (cases "r = 0")
    case True
    then show ?thesis by simp
  next
    case False
    with under have "underflow_limit < r * r" by simp
    then have "t < \<bar>r\<bar>" unfolding t_def by (rule abs_above_of_square)
    then have "t / h < \<bar>r\<bar> / h"
      using h_pos by (simp add: divide_strict_right_mono)
    also have "\<bar>r\<bar> / h \<le> \<bar>r\<bar> / sqrt S"
      by (rule frac_le) (use sq_lt sq_pos in simp_all)
    finally have "t / h < \<bar>r / sqrt S\<bar>"
      using sq_pos by simp
    with t_h show ?thesis by linarith
  qed
  show ?thesis
    using fl_in_range [OF hi lo] sq_pos by simp
qed

lemma normalize_exact:
  assumes pos: "0 < (\<Sum>r\<leftarrow>rs. r * r)"
    and bound: "(\<Sum>r\<leftarrow>rs. r * r) < overflow_limit"
    and under: "\<forall>r\<in>set rs. r = 0 \<or> underflow_limit < r * r"
  shows "normalize (map Fin rs) = map (\<lambda>r. Fin (r / sqrt (\<Sum>r\<leftarrow>rs. r * r))) rs"
proof -
  let ?S = "\<Sum>r\<leftarrow>rs. r * r"
  have ss: "sum_squares (map Fin rs) = Fin ?S"
    unfolding sum_squares_def using sum_squares_fold [of 0 rs] bound under by simp
  have sq_pos: "0 < sqrt ?S" using pos by simp
  have norm: "jsqrt (sum_squares (map Fin rs)) = Fin (sqrt ?S)"
    using ss pos by simp
  have nf: "\<not> falsy (Fin (sqrt ?S))"
    using sq_pos by (simp add: falsy_def)
  have q: "jdiv (Fin r) (Fin (sqrt ?S)) = Fin (r / sqrt ?S)" if "r \<in> set rs" for r
    using that quotient_in_range [OF pos bound elem_square_le_sum] under by blast
  show ?thesis
    unfolding normalize_def norm Let_def using nf q by (simp add: comp_def)
qed



lemma sqrt_25: "sqrt 25 = 5"
  using real_sqrt_abs [of 5] by simp




section \<open>Properties of search and rerank\<close>










lemma sample_normalize: "normalize [Fin 3, Fin 4] = [Fin (3 / 5), Fin (4 / 5)]"
  using normalize_exact [of "[3, 4]"] underflow_limit_pos
  by (simp add: sqrt_25 overflow_limit_def underflow_limit_def)

lemma sample_similarities:
  "jsub (Fin 1) (Fin (1 / 10)) = Fin (9 / 10)"
  "jsub (Fin 1) (Fin (1 / 2)) = Fin (1 / 2)"
  "jsub (Fin 1) (Fin (9 / 10)) = Fin (1 / 10)"
  by (simp_all add: jsub_def fl_def overflow_limit_def underflow_limit_def)

lemma sample_candidates:
  "retrieveByEmbedding (sample_env content) sample_store qvec k =
   Inr [\<lparr>c_rec = rowToRecord (sample_row ''a''), c_score = Fin (9 / 10)\<rparr>,
        \<lparr>c_rec = rowToRecord (sample_row ''b''), c_score = Fin (1 / 2)\<rparr>,
        \<lparr>c_rec = rowToRecord (sample_row ''c''), c_score = Fin (1 / 10)\<rparr>]"
  by (simp add: retrieveByEmbedding_def sample_env_def sample_store_def List.map_filter_simps
      getById_def sample_similarities sample_row_def)


lemma sample_embed: "embedText (sample_env content) q = Inr [Fin (3 / 5), Fin (4 / 5)]"
  by (simp add: embedText_def sample_env_def sample_normalize)

lemma in_set_map_filter: "y \<in> set (List.map_filter f xs) \<longleftrightarrow> (\<exists>x\<in>set xs. f x = Some y)"
  by (induction xs) (auto simp: List.map_filter_simps split: option.splits)

lemma join_results_from_candidates:
  assumes "r \<in> set (join_results kept reranked)"
  shows "\<exists>c\<in>set kept. \<exists>x\<in>set reranked. sr_id r = r_id (c_rec c) \<and> sr_cosineSimilarity r = c_score c \<and>
     sr_id r = s_id x \<and> sr_score r = s_score x"
proof -
  let ?byId = "map_of (rev (map (\<lambda>c. (r_id (c_rec c), c)) kept))"
  from assms obtain x c where x: "x \<in> set reranked" and c: "?byId (s_id x) = Some c"
    and r: "r = \<lparr>sr_id = s_id x, sr_score = s_score x, sr_cosineSimilarity = c_score c,
       sr_metadata = r_metadata (c_rec c), sr_summary = r_summary (c_rec c)\<rparr>"
    by (auto simp: join_results_def Let_def in_set_map_filter split: option.splits)
  from c have "(s_id x, c) \<in> set (rev (map (\<lambda>c. (r_id (c_rec c), c)) kept))"
    by (rule map_of_SomeD)
  then have ck: "c \<in> set kept" and ci: "r_id (c_rec c) = s_id x" by auto
  have "sr_id r = r_id (c_rec c) \<and> sr_cosineSimilarity r = c_score c \<and>
     sr_id r = s_id x \<and> sr_score r = s_score x"
    using r ci by simp
  with x ck show ?thesis by blast
qed

lemma jge_not_jlt: "jge x y \<Longrightarrow> \<not> jlt x y"
  by (cases x; cases y) simp_all

text \<open>
  C1. With a threshold \<^verbatim>\<open>minSimilarity\<close>, the candidates that \<^verbatim>\<open>search\<close> keeps are those
  whose similarity is at least the threshold; none whose similarity is below it is
  kept. The call to the reranker, if there is one, gets exactly the kept candidates,
  and every result is one of them. When none is kept, \<^verbatim>\<open>search\<close> returns the empty
  list and has called the service for the embedding of the query only.
\<close>

theorem search_filters_below_minSimilarity:
  assumes "minSimilarity opts = Some m"
    and "embedText e query = Inr qvec"
    and "retrieveByEmbedding e store qvec (candidate_limit (opt_topK opts)) = Inr candidates"
  shows "(let kept = filter (\<lambda>c. jge (c_score c) m) candidates in
          (\<forall>c\<in>set candidates. jlt (c_score c) m \<longrightarrow> c \<notin> set kept) \<and>
          snd (search e cfg store query opts) =
            (if kept = [] then [EmbedCall query]
             else [EmbedCall query, RerankCall query (summaries_of kept)]) \<and>
          (kept = [] \<longrightarrow> fst (search e cfg store query opts) = Inr []) \<and>
          (\<forall>results. fst (search e cfg store query opts) = Inr results \<longrightarrow>
             (\<forall>r\<in>set results. \<exists>c\<in>set kept. sr_id r = r_id (c_rec c))))"
proof -
  define kept where "kept = filter (\<lambda>c. jge (c_score c) m) candidates"
  have a: "\<forall>c\<in>set candidates. jlt (c_score c) m \<longrightarrow> c \<notin> set kept"
    by (auto simp: kept_def jge_not_jlt)
  have b: "snd (search e cfg store query opts) =
      (if kept = [] then [EmbedCall query] else [EmbedCall query, RerankCall query (summaries_of kept)])"
    using assms by (simp add: search_def opt_minSimilarity_def kept_def Let_def split: sum.splits)
  have c: "kept = [] \<longrightarrow> fst (search e cfg store query opts) = Inr []"
    using assms by (simp add: search_def opt_minSimilarity_def kept_def Let_def)
  have d: "\<exists>c\<in>set kept. sr_id r = r_id (c_rec c)"
    if "fst (search e cfg store query opts) = Inr results" "r \<in> set results" for results r
  proof (cases "kept = []")
    case True
    with c that show ?thesis by simp
  next
    case False
    with that assms obtain reranked where "r \<in> set (join_results kept reranked)"
      by (auto simp: search_def opt_minSimilarity_def kept_def Let_def split: sum.splits)
    then show ?thesis
      using join_results_from_candidates by blast
  qed
  show ?thesis
    unfolding Let_def kept_def [symmetric] using a b c d by blast
qed


lemma sample_candidates':
  "retrieveByEmbedding (sample_env content) sample_store qvec k =
   Inr [sample_candidate ''a'' (9 / 10), sample_candidate ''b'' (1 / 2), sample_candidate ''c'' (1 / 10)]"
  by (simp add: sample_candidates sample_candidate_def)

lemma sample_summaries:
  "summaries_of [sample_candidate ''a'' x] = [(''a'', ''about a'')]"
  "summaries_of [sample_candidate ''a'' x, sample_candidate ''b'' y, sample_candidate ''c'' z] =
     [(''a'', ''about a''), (''b'', ''about b''), (''c'', ''about c'')]"
  by (simp_all add: summaries_of_def sample_candidate_def rowToRecord_def sample_row_def)

theorem search_filters_below_minSimilarity_witness:
  "snd (search (sample_env NoContent) sample_config sample_store ''ml''
          \<lparr>topK = Some 5, minSimilarity = Some (Fin (3 / 5)), minScore = None\<rparr>) =
     [EmbedCall ''ml'', RerankCall ''ml'' [(''a'', ''about a'')]] \<and>
   search (sample_env NoContent) sample_config sample_store ''ml''
          \<lparr>topK = Some 5, minSimilarity = Some (Fin 1), minScore = None\<rparr> =
     (Inr [], [EmbedCall ''ml''])"
proof -
  have "snd (search (sample_env NoContent) sample_config sample_store ''ml''
          \<lparr>topK = Some 5, minSimilarity = Some (Fin (3 / 5)), minScore = None\<rparr>) =
     [EmbedCall ''ml'', RerankCall ''ml'' [(''a'', ''about a'')]]"
    using search_filters_below_minSimilarity
      [of "\<lparr>topK = Some 5, minSimilarity = Some (Fin (3 / 5)), minScore = None\<rparr>" "Fin (3 / 5)"
        "sample_env NoContent" "''ml''", OF _ sample_embed sample_candidates', of sample_config]
    by (simp add: Let_def sample_candidate_def [of _ "9 / 10"] sample_candidate_def [of _ "1 / 2"]
        sample_candidate_def [of _ "1 / 10"] sample_summaries [unfolded sample_candidate_def])
  moreover have "search (sample_env NoContent) sample_config sample_store ''ml''
          \<lparr>topK = Some 5, minSimilarity = Some (Fin 1), minScore = None\<rparr> =
     (Inr [], [EmbedCall ''ml''])"
    using search_filters_below_minSimilarity
      [of "\<lparr>topK = Some 5, minSimilarity = Some (Fin 1), minScore = None\<rparr>" "Fin 1"
        "sample_env NoContent" "''ml''", OF _ sample_embed sample_candidates', of sample_config]
    by (simp add: Let_def sample_candidate_def prod_eq_iff)
  ultimately show ?thesis by simp
qed


text \<open>
  C2. With a threshold \<^verbatim>\<open>minScore\<close>, \<^verbatim>\<open>search\<close> returns the joined results filtered by
  it: an entry of the joined list whose score is below the threshold is not returned,
  one whose score is at least the threshold (equal included) is, and every returned
  entry has a score at least the threshold.
\<close>

theorem search_applies_minScore_inclusively:
  assumes "minScore opts = Some s"
    and "embedText e query = Inr qvec"
    and "retrieveByEmbedding e store qvec (candidate_limit (opt_topK opts)) = Inr candidates"
    and "kept = filter (\<lambda>c. jge (c_score c) (opt_minSimilarity cfg opts)) candidates"
    and "kept \<noteq> []"
    and "rerank e query (summaries_of kept) (opt_topK opts) = Inr reranked"
  shows "\<exists>results. fst (search e cfg store query opts) = Inr results \<and>
           (\<forall>r\<in>set results. jge (Fin (sr_score r)) s \<and> \<not> jlt (Fin (sr_score r)) s) \<and>
           (\<forall>r\<in>set (join_results kept reranked).
              (jlt (Fin (sr_score r)) s \<longrightarrow> r \<notin> set results) \<and>
              (jge (Fin (sr_score r)) s \<longrightarrow> r \<in> set results)) \<and>
           results = filter (\<lambda>r. jge (Fin (sr_score r)) s) (join_results kept reranked)"
proof -
  let ?results = "filter (\<lambda>r. jge (Fin (sr_score r)) s) (join_results kept reranked)"
  have "fst (search e cfg store query opts) = Inr ?results"
    using assms by (simp add: search_def Let_def opt_minScore_def)
  then show ?thesis
    by (auto simp: jge_not_jlt)
qed

lemma sample_join:
  "join_results [sample_candidate ''a'' x, sample_candidate ''b'' y, sample_candidate ''c'' z]
     [\<lparr>s_id = ''a'', s_score = p\<rparr>, \<lparr>s_id = ''b'', s_score = q\<rparr>, \<lparr>s_id = ''c'', s_score = r\<rparr>] =
   [sample_result ''a'' p x, sample_result ''b'' q y, sample_result ''c'' r z]"
  by (simp add: join_results_def List.map_filter_simps sample_candidate_def sample_result_def
      rowToRecord_def sample_row_def)

lemma sample_rerank_entries:
  "rerank (sample_env (Entries [\<lparr>s_id = ''c'', s_score = 40\<rparr>, \<lparr>s_id = ''a'', s_score = 95\<rparr>,
       \<lparr>s_id = ''b'', s_score = 70\<rparr>])) q cs 5 =
   Inr [\<lparr>s_id = ''a'', s_score = 95\<rparr>, \<lparr>s_id = ''b'', s_score = 70\<rparr>, \<lparr>s_id = ''c'', s_score = 40\<rparr>]"
  by (simp add: rerank_def sample_env_def js_slice_def clamp_index_def)

theorem search_applies_minScore_inclusively_witness:
  "fst (search (sample_env (Entries [\<lparr>s_id = ''c'', s_score = 40\<rparr>, \<lparr>s_id = ''a'', s_score = 95\<rparr>,
          \<lparr>s_id = ''b'', s_score = 70\<rparr>])) sample_config sample_store ''ml''
          \<lparr>topK = Some 5, minSimilarity = Some (Fin 0), minScore = Some (Fin 70)\<rparr>) =
   Inr [sample_result ''a'' 95 (9 / 10), sample_result ''b'' 70 (1 / 2)]"
proof -
  let ?opts = "\<lparr>topK = Some 5, minSimilarity = Some (Fin 0), minScore = Some (Fin 70)\<rparr>"
  let ?kept = "[sample_candidate ''a'' (9 / 10), sample_candidate ''b'' (1 / 2), sample_candidate ''c'' (1 / 10)]"
  have kept: "?kept = filter (\<lambda>c. jge (c_score c) (opt_minSimilarity sample_config ?opts)) ?kept"
    by (simp add: opt_minSimilarity_def sample_candidate_def)
  have rr: "rerank (sample_env (Entries [\<lparr>s_id = ''c'', s_score = 40\<rparr>, \<lparr>s_id = ''a'', s_score = 95\<rparr>,
       \<lparr>s_id = ''b'', s_score = 70\<rparr>])) ''ml'' (summaries_of ?kept) (opt_topK ?opts) =
     Inr [\<lparr>s_id = ''a'', s_score = 95\<rparr>, \<lparr>s_id = ''b'', s_score = 70\<rparr>, \<lparr>s_id = ''c'', s_score = 40\<rparr>]"
    by (simp add: opt_topK_def sample_rerank_entries)
  show ?thesis
    using search_applies_minScore_inclusively [OF _ sample_embed sample_candidates' kept _ rr, of "Fin 70"]
    by (simp add: sample_join sample_result_def)
qed




lemma js_slice_nonneg: "0 \<le> k \<Longrightarrow> js_slice xs 0 k = take (nat k) xs"
  by (simp add: js_slice_def clamp_index_def min_def)

text \<open>
  C7. When the content of the model's answer is not parseable, \<^verbatim>\<open>rerank\<close> returns a
  list and no error: the ids are those of the first \<^verbatim>\<open>topK\<close> candidates, in their
  order, and the i-th of them gets the score \<^verbatim>\<open>candidates.length - i\<close>. A search whose
  embedding and retrieval succeeded then returns a result list.
\<close>

theorem rerank_unparseable_falls_back:
  assumes "chat_rerank e query candidates = Inr Unparseable"
  shows "(\<exists>reranked. rerank e query candidates k = Inr reranked \<and>
            map s_id reranked = map fst (js_slice candidates 0 k) \<and>
            map s_score reranked = map (\<lambda>i. real (length candidates) - real i) [0..<length reranked] \<and>
            (0 \<le> k \<longrightarrow> map s_id reranked = take (nat k) (map fst candidates))) \<and>
         (embedText e query = Inr qvec \<and>
          retrieveByEmbedding e store qvec (candidate_limit (opt_topK opts)) = Inr found \<and>
          candidates = summaries_of (filter (\<lambda>c. jge (c_score c) (opt_minSimilarity cfg opts)) found) \<longrightarrow>
            (\<exists>results. fst (search e cfg store query opts) = Inr results))"
proof -
  let ?ys = "js_slice candidates 0 k"
  let ?g = "\<lambda>i. real (length candidates) - real i"
  have r: "rerank e query candidates k = Inr (fallback_scores candidates k)" for k
    using assms by (simp add: rerank_def)
  have ids: "map s_id (fallback_scores candidates k) = map fst ?ys"
  proof -
    have "map s_id (fallback_scores candidates k) = map (fst \<circ> snd) (enumerate 0 ?ys)"
      by (simp add: fallback_scores_def comp_def case_prod_unfold)
    also have "\<dots> = map fst (map snd (enumerate 0 ?ys))"
      by (simp only: map_map)
    finally show ?thesis by simp
  qed
  have len: "length (fallback_scores candidates k) = length ?ys"
    by (simp add: fallback_scores_def)
  have scores: "map s_score (fallback_scores candidates k) = map ?g [0..<length (fallback_scores candidates k)]"
  proof -
    have "map s_score (fallback_scores candidates k) = map (?g \<circ> fst) (enumerate 0 ?ys)"
      by (simp add: fallback_scores_def comp_def case_prod_unfold)
    also have "\<dots> = map ?g (map fst (enumerate 0 ?ys))"
      by (simp only: map_map)
    finally show ?thesis by (simp add: len)
  qed
  have first: "0 \<le> k \<longrightarrow> map s_id (fallback_scores candidates k) = take (nat k) (map fst candidates)"
    by (simp add: ids js_slice_nonneg take_map)
  have completes: "\<exists>results. fst (search e cfg store query opts) = Inr results"
    if "embedText e query = Inr qvec"
      "retrieveByEmbedding e store qvec (candidate_limit (opt_topK opts)) = Inr found"
      "candidates = summaries_of (filter (\<lambda>c. jge (c_score c) (opt_minSimilarity cfg opts)) found)"
    using that r [of "opt_topK opts"] by (simp add: search_def Let_def)
  show ?thesis
    using r [of k] ids scores first completes by blast
qed

theorem rerank_unparseable_falls_back_witness:
  "(\<exists>reranked.
      rerank (sample_env Unparseable) ''ml''
        [(''a'', ''about a''), (''b'', ''about b''), (''c'', ''about c'')] 2 = Inr reranked \<and>
      map s_id reranked = [''a'', ''b''] \<and> map s_score reranked = [3, 2]) \<and>
   (\<exists>results.
      fst (search (sample_env Unparseable) sample_config sample_store ''ml''
        \<lparr>topK = Some 2, minSimilarity = Some (Fin 0), minScore = Some (Fin 0)\<rparr>) = Inr results)"
proof -
  let ?cs = "[(''a'', ''about a''), (''b'', ''about b''), (''c'', ''about c'')]"
  let ?opts = "\<lparr>topK = Some 2, minSimilarity = Some (Fin 0), minScore = Some (Fin 0)\<rparr>"
  have chat: "chat_rerank (sample_env Unparseable) ''ml'' ?cs = Inr Unparseable"
    by (simp add: sample_env_def)
  have cs: "?cs = summaries_of (filter (\<lambda>c. jge (c_score c) (opt_minSimilarity sample_config ?opts))
      [sample_candidate ''a'' (9 / 10), sample_candidate ''b'' (1 / 2), sample_candidate ''c'' (1 / 10)])"
    by (simp add: opt_minSimilarity_def sample_candidate_def [of _ "9 / 10"]
        sample_candidate_def [of _ "1 / 2"] sample_candidate_def [of _ "1 / 10"]
        sample_summaries [unfolded sample_candidate_def])
  note fact = rerank_unparseable_falls_back [OF chat, of 2 "[Fin (3 / 5), Fin (4 / 5)]" sample_store ?opts
      "[sample_candidate ''a'' (9 / 10), sample_candidate ''b'' (1 / 2), sample_candidate ''c'' (1 / 10)]"
      sample_config]
  from fact [THEN conjunct1] obtain reranked where r: "rerank (sample_env Unparseable) ''ml'' ?cs 2 = Inr reranked"
    and ids: "map s_id reranked = map fst (js_slice ?cs 0 2)"
    and scores: "map s_score reranked = map (\<lambda>i. real (length ?cs) - real i) [0..<length reranked]"
    by (elim exE conjE)
  have ids': "map s_id reranked = [''a'', ''b'']"
    using ids by (simp add: js_slice_def clamp_index_def)
  have "length (map s_id reranked) = 2"
    unfolding ids' by simp
  then have "length reranked = 2"
    by simp
  then have "[0..<length reranked] = [0, 1]"
    by (simp add: upt_rec)
  with scores have sc: "map s_score reranked = [3, 2]"
    by simp
  have first: "\<exists>reranked. rerank (sample_env Unparseable) ''ml'' ?cs 2 = Inr reranked \<and>
      map s_id reranked = [''a'', ''b''] \<and> map s_score reranked = [3, 2]"
    by (rule exI [of _ reranked]) (simp only: r ids' sc simp_thms)
  have second: "\<exists>results. fst (search (sample_env Unparseable) sample_config sample_store ''ml'' ?opts) = Inr results"
    by (rule fact [THEN conjunct2, rule_format])
      (intro conjI sample_embed sample_candidates' cs)
  from first second show ?thesis by (rule conjI)
qed

section \<open>Properties of the store\<close>

lemma find_append: "find P (xs @ ys) = (case find P xs of None \<Rightarrow> find P ys | Some x \<Rightarrow> Some x)"
  by (induction xs) auto

lemma find_insert_or_update_same:
  "find (\<lambda>r. col_id r = col_id row) (insert_or_update row rows) = Some row"
proof (cases "col_id row \<in> set (map col_id rows)")
  case True
  then show ?thesis
    by (induction rows) (auto simp: insert_or_update_def)
next
  case False
  then have "find (\<lambda>r. col_id r = col_id row) rows = None"
    by (induction rows) auto
  with False show ?thesis
    by (simp add: insert_or_update_def find_append)
qed

lemma find_insert_or_update_other:
  assumes "i \<noteq> col_id row"
  shows "find (\<lambda>r. col_id r = i) (insert_or_update row rows) = find (\<lambda>r. col_id r = i) rows"
proof (cases "col_id row \<in> set (map col_id rows)")
  case True
  have "find (\<lambda>r. col_id r = i) (map (\<lambda>old. if col_id old = col_id row then row else old) rows) =
      find (\<lambda>r. col_id r = i) rows"
    using assms by (induction rows) auto
  with True show ?thesis by (simp add: insert_or_update_def)
next
  case False
  with assms show ?thesis
    by (cases "find (\<lambda>r. col_id r = i) rows") (simp_all add: insert_or_update_def find_append)
qed

lemma length_insert_or_update:
  "length (insert_or_update row rows) =
     (if col_id row \<in> set (map col_id rows) then length rows else Suc (length rows))"
  by (simp add: insert_or_update_def)

lemma files_ensureVectorTable: "files (ensureVectorTable e n store) = files store"
  by (simp add: ensureVectorTable_def)

lemma upsert_rejected:
  "r_embedding record = [] \<Longrightarrow> upsert e record store = (Some InvalidEmbedding, store)"
  "r_embedding record \<noteq> [] \<Longrightarrow> NaN \<in> set (r_embedding record) \<Longrightarrow>
     upsert e record store = (Some InvalidValues, store)"
  by (auto simp: upsert_def Let_def list_all_iff)

lemma upsert_passed_files:
  assumes "r_embedding record \<noteq> []" "NaN \<notin> set (r_embedding record)"
  shows "files (snd (upsert e record store)) = insert_or_update (row_of_record e record) (files store)"
    and "fst (upsert e record store) \<in> {None, Some VecTableError}"
  using assms
  by (auto simp: upsert_def Let_def list_all_iff files_ensureVectorTable split: option.splits prod.splits)

lemma upsert_passed_vec:
  assumes "fst (upsert e record store) = None"
  shows "\<exists>dimension rows. vec_files (snd (upsert e record store)) = Some (dimension, rows) \<and>
     filter (\<lambda>(i, v). i = r_id record) rows = [(r_id record, r_embedding record)]"
proof -
  have nil: "filter (\<lambda>(i, v). i = k) (filter (\<lambda>(i, v). i \<noteq> k) rows) = []" for k and rows :: "(string \<times> number list) list"
    by (induction rows) auto
  show ?thesis
    using assms
    by (auto simp: upsert_def Let_def nil split: option.splits prod.splits if_splits)
qed

lemma col_id_row_of_record: "col_id (row_of_record e record) = r_id record"
  by (simp add: row_of_record_def Let_def)

text \<open>
  C4, amended. \<^verbatim>\<open>upsert\<close> raises an error when the embedding is empty or contains NaN,
  and then leaves the store as it was (neither table is written). Otherwise, which
  includes an embedding with infinite components, the validation raises nothing: the
  row of the record's id in \<^verbatim>\<open>files\<close> is inserted, or replaced when the id is there
  already, and the other rows stay; the only error left is one of the statements on
  \<^verbatim>\<open>vec_files\<close>, and when there is none that table holds exactly one row for the id,
  with the embedding.
\<close>

theorem upsert_validates_then_writes:
  "(r_embedding record = [] \<longrightarrow> upsert e record store = (Some InvalidEmbedding, store)) \<and>
   (r_embedding record \<noteq> [] \<and> NaN \<in> set (r_embedding record) \<longrightarrow>
      upsert e record store = (Some InvalidValues, store)) \<and>
   (r_embedding record \<noteq> [] \<and> NaN \<notin> set (r_embedding record) \<longrightarrow>
      fst (upsert e record store) \<in> {None, Some VecTableError} \<and>
      getById (snd (upsert e record store)) (r_id record) = Some (rowToRecord (row_of_record e record)) \<and>
      (\<forall>i. i \<noteq> r_id record \<longrightarrow> getById (snd (upsert e record store)) i = getById store i) \<and>
      length (files (snd (upsert e record store))) =
        (if r_id record \<in> set (map col_id (files store)) then length (files store)
         else Suc (length (files store))) \<and>
      (fst (upsert e record store) = None \<longrightarrow>
         (\<exists>dimension rows. vec_files (snd (upsert e record store)) = Some (dimension, rows) \<and>
            filter (\<lambda>(i, v). i = r_id record) rows = [(r_id record, r_embedding record)])))"
proof -
  have passed: "getById (snd (upsert e record store)) (r_id record) = Some (rowToRecord (row_of_record e record)) \<and>
      (\<forall>i. i \<noteq> r_id record \<longrightarrow> getById (snd (upsert e record store)) i = getById store i) \<and>
      length (files (snd (upsert e record store))) =
        (if r_id record \<in> set (map col_id (files store)) then length (files store)
         else Suc (length (files store)))"
    if "r_embedding record \<noteq> []" "NaN \<notin> set (r_embedding record)"
    using find_insert_or_update_same [of "row_of_record e record" "files store"]
      find_insert_or_update_other [of _ "row_of_record e record" "files store"]
    by (simp add: getById_def upsert_passed_files(1) [OF that] col_id_row_of_record
        length_insert_or_update)
  show ?thesis
    using upsert_rejected [of "record" e store] upsert_passed_files(2) [of "record" e store]
      upsert_passed_vec [of e "record" store] passed
    by blast
qed


lemma sample_ids: "map col_id (files sample_store) = [''a'', ''b'', ''c'']"
  by (simp add: sample_store_def sample_row_def)

lemma sample_length: "length (files sample_store) = 3"
  by (simp add: sample_store_def)

lemma sample_record_sel:
  "r_id (sample_record i v) = i" "r_embedding (sample_record i v) = v"
  by (simp_all add: sample_record_def)

theorem upsert_validates_then_writes_witness:
  "upsert (sample_env NoContent) (sample_record ''d'' []) sample_store =
     (Some InvalidEmbedding, sample_store) \<and>
   upsert (sample_env NoContent) (sample_record ''d'' [Fin 1, NaN]) sample_store =
     (Some InvalidValues, sample_store) \<and>
   getById (snd (upsert (sample_env NoContent) (sample_record ''a'' [Fin 1, Fin 0]) sample_store)) ''a'' =
     Some (rowToRecord (row_of_record (sample_env NoContent) (sample_record ''a'' [Fin 1, Fin 0]))) \<and>
   length (files (snd (upsert (sample_env NoContent) (sample_record ''a'' [Fin 1, Fin 0]) sample_store))) = 3 \<and>
   length (files (snd (upsert (sample_env NoContent) (sample_record ''d'' [Fin 1, Fin 0]) sample_store))) = 4"
  using upsert_validates_then_writes [of "sample_record ''d'' []" "sample_env NoContent" sample_store]
    upsert_validates_then_writes [of "sample_record ''d'' [Fin 1, NaN]" "sample_env NoContent" sample_store]
    upsert_validates_then_writes [of "sample_record ''a'' [Fin 1, Fin 0]" "sample_env NoContent" sample_store]
    upsert_validates_then_writes [of "sample_record ''d'' [Fin 1, Fin 0]" "sample_env NoContent" sample_store]
  by (simp add: sample_ids sample_length sample_record_sel)

text \<open>
  C4, as the claim states it, fails for an embedding with an infinite component: the
  validation tests for NaN only, so \<^verbatim>\<open>[Infinity, 0]\<close> passes it and the row is written
  to \<^verbatim>\<open>files\<close>. With an extension that accepts the vector no error is raised at all;
  with one that refuses it the error comes after the write to \<^verbatim>\<open>files\<close>.
\<close>

theorem upsert_infinite_counterexample:
  "upsert (sample_env NoContent) (sample_record ''d'' [PosInf, Fin 0]) sample_store =
     (None,
      sample_store
        \<lparr>files := files sample_store @
           [row_of_record (sample_env NoContent) (sample_record ''d'' [PosInf, Fin 0])],
         vec_files := Some (2, [(''a'', [Fin 1, Fin 0]), (''b'', [Fin 0, Fin 1]),
           (''c'', [Fin 0, Fin 1]), (''d'', [PosInf, Fin 0])])\<rparr>) \<and>
   upsert ((sample_env NoContent)\<lparr>vec_insert_ok := (\<lambda>d v. False)\<rparr>)
       (sample_record ''d'' [PosInf, Fin 0]) sample_store =
     (Some VecTableError,
      sample_store
        \<lparr>files := files sample_store @
           [row_of_record (sample_env NoContent) (sample_record ''d'' [PosInf, Fin 0])]\<rparr>)"
  by (simp add: upsert_def Let_def ensureVectorTable_def sample_store_def sample_env_def
      sample_record_def insert_or_update_def row_of_record_def sample_row_def truthy_string_def)

section \<open>Properties of indexing\<close>

lemma map_col_id_replace:
  "map col_id (map (\<lambda>old. if col_id old = col_id row then row else old) rows) = map col_id rows"
  by (induction rows) auto

lemma map_col_id_insert_or_update:
  "map col_id (insert_or_update row rows) =
     (if col_id row \<in> set (map col_id rows) then map col_id rows else map col_id rows @ [col_id row])"
  unfolding insert_or_update_def by (simp only: map_col_id_replace if_distrib [of "map col_id"] map_append list.map)

lemma distinct_ids_insert_or_update:
  "distinct (map col_id rows) \<Longrightarrow> distinct (map col_id (insert_or_update row rows))"
  unfolding map_col_id_insert_or_update by simp

lemma set_ids_insert_or_update:
  "set (map col_id (insert_or_update row rows)) = insert (col_id row) (set (map col_id rows))"
  unfolding map_col_id_insert_or_update by auto

lemma replace_absent:
  "col_id row \<notin> set (map col_id rows) \<Longrightarrow>
   map (\<lambda>old. if col_id old = col_id row then row else old) rows = rows"
  by (induction rows) auto

lemma in_set_mapD: "y \<in> set (map f ys) \<Longrightarrow> \<exists>r\<in>set ys. f r = y"
  by auto

lemma path_of_replaced:
  "r \<in> set (map (\<lambda>old. if col_id old = col_id row then row else old) rows) \<Longrightarrow>
   r = row \<or> (r \<in> set rows \<and> col_id r \<noteq> col_id row)"
  by (induction rows) (auto split: if_splits)

lemma distinct_paths_replace:
  assumes "distinct (map col_id rows)" "distinct (map col_path rows)"
    and "\<forall>r\<in>set rows. col_path r = col_path row \<longrightarrow> col_id r = col_id row"
  shows "distinct (map col_path (map (\<lambda>old. if col_id old = col_id row then row else old) rows))"
  using assms
proof (induction rows)
  case Nil
  then show ?case by simp
next
  case (Cons x xs)
  let ?upd = "\<lambda>old. if col_id old = col_id row then row else old"
  have ih: "distinct (map col_path (map ?upd xs))"
    using Cons by simp
  show ?case
  proof (cases "col_id x = col_id row")
    case True
    with Cons.prems(1) have absent: "col_id row \<notin> set (map col_id xs)" by auto
    then have same: "map ?upd xs = xs" by (rule replace_absent)
    have "col_path row \<notin> set (map col_path xs)"
    proof
      assume "col_path row \<in> set (map col_path xs)"
      then obtain r where r: "r \<in> set xs" "col_path r = col_path row" by auto
      with Cons.prems(3) have "col_id r = col_id row" by simp
      with r absent show False by (metis imageI set_map)
    qed
    with True Cons.prems(2) show ?thesis by (simp only: same list.map if_P distinct.simps) simp
  next
    case False
    have "col_path x \<notin> set (map col_path (map ?upd xs))"
    proof
      assume "col_path x \<in> set (map col_path (map ?upd xs))"
      from in_set_mapD [OF this] obtain r where r: "r \<in> set (map ?upd xs)" "col_path r = col_path x"
        by blast
      from path_of_replaced [OF r(1)] show False
      proof
        assume "r = row"
        with r(2) Cons.prems(3) False show False by simp
      next
        assume "r \<in> set xs \<and> col_id r \<noteq> col_id row"
        with r(2) Cons.prems(2) show False by (metis distinct.simps(2) imageI list.map(2) set_map)
      qed
    qed
    with False ih show ?thesis by (simp del: map_map)
  qed
qed

lemma distinct_paths_insert_or_update:
  assumes "distinct (map col_id rows)" "distinct (map col_path rows)"
    and "\<forall>r\<in>set rows. col_path r = col_path row \<longrightarrow> col_id r = col_id row"
  shows "distinct (map col_path (insert_or_update row rows))"
proof (cases "col_id row \<in> set (map col_id rows)")
  case True
  then show ?thesis
    using distinct_paths_replace [OF assms] by (simp add: insert_or_update_def)
next
  case False
  have "col_path row \<notin> set (map col_path rows)"
  proof
    assume "col_path row \<in> set (map col_path rows)"
    then obtain r where r: "r \<in> set rows" "col_path r = col_path row" by auto
    with assms(3) have "col_id r = col_id row" by simp
    with r False show False by (metis imageI set_map)
  qed
  with False assms(2) show ?thesis
    by (simp add: insert_or_update_def)
qed

lemma row_in_insert_or_update: "row \<in> set (insert_or_update row rows)"
  by (induction rows) (auto simp: insert_or_update_def)

lemma find_unique_path:
  assumes "distinct (map col_path rows)" "row \<in> set rows"
  shows "find (\<lambda>r. col_path r = col_path row) rows = Some row"
  using assms by (induction rows) (auto simp: rev_image_eqI)

lemma find_path_Some:
  assumes "find (\<lambda>r. col_path r = P) rows = Some row"
  shows "row \<in> set rows \<and> col_path row = P"
  using assms by (induction rows) (auto split: if_splits)

lemma find_path_None:
  assumes "find (\<lambda>r. col_path r = P) rows = None"
  shows "\<forall>r\<in>set rows. col_path r \<noteq> P"
  using assms by (induction rows) (auto split: if_splits)


lemma other_row_in_insert_or_update:
  "r \<in> set rows \<Longrightarrow> col_id r \<noteq> col_id row \<Longrightarrow> r \<in> set (insert_or_update row rows)"
  by (induction rows) (auto simp: insert_or_update_def)

lemma files_upsert_cases:
  "files (snd (upsert e record store)) = files store \<or>
   files (snd (upsert e record store)) = insert_or_update (row_of_record e record) (files store)"
  by (auto simp: upsert_def Let_def ensureVectorTable_def split: option.splits prod.splits)

lemma row_of_record_of_prepared:
  "col_id (row_of_record e (record_of_prepared p summary embedding)) = p_id p"
  "col_path (row_of_record e (record_of_prepared p summary embedding)) = p_resolvedPath p"
  by (simp_all add: row_of_record_def record_of_prepared_def Let_def)

lemma indexFile_begin_prepared:
  assumes "indexFile_begin e st f = (Inr p, st')"
  shows "p_resolvedPath p = path_resolve e f" and "p_id p = chosen_id e st (path_resolve e f)"
    and "db st' = db st"
  using assms
  by (auto simp: indexFile_begin_def chosen_id_def Let_def split: option.splits)

lemma indexFile_begin_failed:
  assumes "indexFile_begin e st f = (Inl err, st')"
  shows "st' = st"
  using assms
  by (auto simp: indexFile_begin_def Let_def split: option.splits)

lemma indexFile_rest_files:
  "files (db (snd (indexFile_rest e cfg p st))) = files (db st) \<or>
   (\<exists>summary embedding.
      files (db (snd (indexFile_rest e cfg p st))) =
        insert_or_update (row_of_record e (record_of_prepared p summary embedding)) (files (db st)))"
proof (cases "summarizeFile e (p_filePath p) (maxChars cfg)")
  case (Inl err)
  then show ?thesis by (simp add: indexFile_rest_def Let_def)
next
  case summary: (Inr summary)
  show ?thesis
  proof (cases "embedText e summary")
    case (Inl err)
    with summary show ?thesis by (simp add: indexFile_rest_def Let_def)
  next
    case (Inr embedding)
    with summary have "db (snd (indexFile_rest e cfg p st)) =
        snd (upsert e (record_of_prepared p summary embedding) (db st))"
      by (simp add: indexFile_rest_def Let_def split: prod.splits)
    then show ?thesis
      using files_upsert_cases [of e "record_of_prepared p summary embedding" "db st"] by auto
  qed
qed

lemma indexFile_files:
  "files (db (snd (indexFile e cfg st f))) = files (db st) \<or>
   (\<exists>row. files (db (snd (indexFile e cfg st f))) = insert_or_update row (files (db st)) \<and>
      col_path row = path_resolve e f \<and> col_id row = chosen_id e st (path_resolve e f))"
proof (cases "indexFile_begin e st f")
  case (Pair r st')
  show ?thesis
  proof (cases r)
    case (Inl err)
    with Pair have b: "indexFile_begin e st f = (Inl err, st')" by simp
    from indexFile_begin_failed [OF b] b show ?thesis
      by (simp add: indexFile_def)
  next
    case (Inr p)
    with Pair have b: "indexFile_begin e st f = (Inr p, st')" by simp
    have eq: "indexFile e cfg st f = indexFile_rest e cfg p st'"
      using b by (simp add: indexFile_def)
    show ?thesis
      using indexFile_rest_files [of e cfg p st'] indexFile_begin_prepared [OF b]
      unfolding eq by (auto simp: row_of_record_of_prepared)
  qed
qed


lemma r_id_rowToRecord: "r_id (rowToRecord row) = col_id row"
  by (simp add: rowToRecord_def)

lemma getByPath_Some:
  assumes "getByPath store P = Some existing"
  shows "\<exists>row0. find (\<lambda>r. col_path r = P) (files store) = Some row0 \<and> r_id existing = col_id row0"
proof (cases "find (\<lambda>r. col_path r = P) (files store)")
  case None
  with assms show ?thesis by (simp add: getByPath_def)
next
  case (Some row0)
  with assms have "existing = rowToRecord row0" by (simp add: getByPath_def)
  then have "r_id existing = col_id row0" by (simp only: r_id_rowToRecord)
  with Some show ?thesis by blast
qed

lemma getByPath_None:
  "getByPath store P = None \<longleftrightarrow> find (\<lambda>r. col_path r = P) (files store) = None"
  by (simp add: getByPath_def)

lemma chosen_id_existing:
  assumes "getByPath (db st) P = Some existing" "r_id existing \<noteq> []"
  shows "chosen_id e st P = r_id existing"
  unfolding chosen_id_def using assms by (simp add: truthy_string_def)

lemma chosen_id_fresh:
  assumes "getByPath (db st) P = None"
  shows "chosen_id e st P = uuidv4 e (uuid_calls st)"
  unfolding chosen_id_def using assms by (simp add: truthy_string_def)

lemma store_inv_id_nonempty:
  assumes "store_inv store" "row \<in> set (files store)"
  shows "col_id row \<noteq> []"
proof
  assume "col_id row = []"
  with assms(2) have "[] \<in> set (map col_id (files store))"
    by (metis imageI set_map)
  with assms(1) show False by (simp only: store_inv_def simp_thms)
qed

lemma store_inv_path_unique:
  assumes "store_inv store" "find (\<lambda>r. col_path r = P) (files store) = Some row0"
    and "r \<in> set (files store)" "col_path r = P"
  shows "r = row0"
proof -
  from assms(1) have "distinct (map col_path (files store))" by (simp only: store_inv_def)
  from find_unique_path [OF this assms(3)] have "find (\<lambda>x. col_path x = col_path r) (files store) = Some r" .
  then have "find (\<lambda>x. col_path x = P) (files store) = Some r" by (simp only: assms(4))
  with assms(2) show ?thesis by simp
qed

lemma chosen_id_props:
  assumes inv: "store_inv (db st)" and uu: "\<forall>n. uuidv4 e n \<noteq> []"
  shows "chosen_id e st P \<noteq> []"
    and "\<forall>r\<in>set (files (db st)). col_path r = P \<longrightarrow> col_id r = chosen_id e st P"
    and "getByPath (db st) P = Some existing \<longrightarrow> chosen_id e st P = r_id existing"
proof -
  have some: "chosen_id e st P = col_id row0 \<and> col_id row0 \<noteq> [] \<and> r_id x = col_id row0"
    if g: "getByPath (db st) P = Some x" and f: "find (\<lambda>r. col_path r = P) (files (db st)) = Some row0"
      and rid: "r_id x = col_id row0"
    for x row0
  proof -
    from find_path_Some [OF f] have "row0 \<in> set (files (db st))" by (rule conjunct1)
    from store_inv_id_nonempty [OF inv this] have ne: "col_id row0 \<noteq> []" .
    with rid have "r_id x \<noteq> []" by simp
    from chosen_id_existing [OF g this] have "chosen_id e st P = r_id x" .
    with ne rid show ?thesis by simp
  qed
  show "getByPath (db st) P = Some existing \<longrightarrow> chosen_id e st P = r_id existing"
  proof
    assume g: "getByPath (db st) P = Some existing"
    from getByPath_Some [OF g] obtain row0
      where "find (\<lambda>r. col_path r = P) (files (db st)) = Some row0" "r_id existing = col_id row0"
      by blast
    from some [OF g this] show "chosen_id e st P = r_id existing" by simp
  qed
  show "chosen_id e st P \<noteq> []"
  proof (cases "getByPath (db st) P")
    case None
    from chosen_id_fresh [OF None] uu show ?thesis by simp
  next
    case (Some x)
    from getByPath_Some [OF Some] obtain row0
      where "find (\<lambda>r. col_path r = P) (files (db st)) = Some row0" "r_id x = col_id row0"
      by blast
    from some [OF Some this] show ?thesis by simp
  qed
  show "\<forall>r\<in>set (files (db st)). col_path r = P \<longrightarrow> col_id r = chosen_id e st P"
  proof (intro ballI impI)
    fix r assume r: "r \<in> set (files (db st))" "col_path r = P"
    show "col_id r = chosen_id e st P"
    proof (cases "getByPath (db st) P")
      case None
      then have "find (\<lambda>r. col_path r = P) (files (db st)) = None"
        by (simp only: getByPath_None)
      from find_path_None [OF this] r show ?thesis by blast
    next
      case (Some x)
      from getByPath_Some [OF Some] obtain row0
        where f: "find (\<lambda>r. col_path r = P) (files (db st)) = Some row0" and rid: "r_id x = col_id row0"
        by blast
      from store_inv_path_unique [OF inv f r] have "r = row0" .
      with some [OF Some f rid] show ?thesis by simp
    qed
  qed
qed

lemma store_inv_insert_or_update:
  assumes "distinct (map col_id rows)" "distinct (map col_path rows)" "[] \<notin> set (map col_id rows)"
    and "col_id row \<noteq> []"
    and "\<forall>r\<in>set rows. col_path r = col_path row \<longrightarrow> col_id r = col_id row"
  shows "distinct (map col_id (insert_or_update row rows))"
    and "distinct (map col_path (insert_or_update row rows))"
    and "[] \<notin> set (map col_id (insert_or_update row rows))"
proof -
  show "distinct (map col_id (insert_or_update row rows))"
    using assms(1) by (rule distinct_ids_insert_or_update)
  show "distinct (map col_path (insert_or_update row rows))"
    using assms(1,2,5) by (rule distinct_paths_insert_or_update)
  show "[] \<notin> set (map col_id (insert_or_update row rows))"
    unfolding set_ids_insert_or_update using assms(3,4) by auto
qed

lemma indexFile_store_inv:
  assumes inv: "store_inv (db st)" and uu: "\<forall>n. uuidv4 e n \<noteq> []"
  shows "store_inv (db (snd (indexFile e cfg st f)))"
proof -
  let ?P = "path_resolve e f"
  from indexFile_files [of e cfg st f] show ?thesis
  proof
    assume "files (db (snd (indexFile e cfg st f))) = files (db st)"
    with inv show ?thesis by (simp add: store_inv_def)
  next
    assume "\<exists>row. files (db (snd (indexFile e cfg st f))) = insert_or_update row (files (db st)) \<and>
      col_path row = ?P \<and> col_id row = chosen_id e st ?P"
    then obtain row where row: "files (db (snd (indexFile e cfg st f))) = insert_or_update row (files (db st))"
      "col_path row = ?P" "col_id row = chosen_id e st ?P" by blast
    from inv have d: "distinct (map col_id (files (db st)))" "distinct (map col_path (files (db st)))"
      "[] \<notin> set (map col_id (files (db st)))"
      by (simp_all add: store_inv_def)
    have ne: "col_id row \<noteq> []"
      using chosen_id_props(1) [OF inv uu] row(3) by simp
    have same: "\<forall>r\<in>set (files (db st)). col_path r = col_path row \<longrightarrow> col_id r = col_id row"
      using chosen_id_props(2) [OF inv uu, of ?P] row(2,3) by simp
    from store_inv_insert_or_update [OF d ne same] show ?thesis
      unfolding store_inv_def row(1) by simp
  qed
qed


lemma distinct_ids_eq:
  assumes "distinct (map col_id rows)" "x \<in> set rows" "y \<in> set rows" "col_id x = col_id y"
  shows "x = y"
  using assms by (meson distinct_map inj_on_eq_iff)

lemma getByPath_of_unique_row:
  assumes "store_inv store" "row \<in> set (files store)"
  shows "getByPath store (col_path row) = Some (rowToRecord row)"
proof -
  from assms(1) have "distinct (map col_path (files store))" by (simp only: store_inv_def)
  from find_unique_path [OF this assms(2)] show ?thesis by (simp add: getByPath_def)
qed

lemma getByPath_files_cong: "files store' = files store \<Longrightarrow> getByPath store' P = getByPath store P"
  by (simp add: getByPath_def)

lemma indexFile_keeps_id:
  assumes inv: "store_inv (db st)" and uu: "\<forall>n. uuidv4 e n \<noteq> []"
    and g: "getByPath (db st) P = Some existing"
    and fresh: "path_resolve e f = P \<or> (\<forall>n. uuidv4 e n \<noteq> r_id existing)"
  shows "\<exists>r. getByPath (db (snd (indexFile e cfg st f))) P = Some r \<and> r_id r = r_id existing"
proof -
  let ?st' = "snd (indexFile e cfg st f)"
  let ?Q = "path_resolve e f"
  have inv': "store_inv (db ?st')"
    using inv uu by (rule indexFile_store_inv)
  from getByPath_Some [OF g] obtain row0
    where f0: "find (\<lambda>r. col_path r = P) (files (db st)) = Some row0" and rid: "r_id existing = col_id row0"
    by blast
  from find_path_Some [OF f0] have in0: "row0 \<in> set (files (db st))" and p0: "col_path row0 = P"
    by simp_all
  from indexFile_files [of e cfg st f] show ?thesis
  proof
    assume "files (db ?st') = files (db st)"
    from getByPath_files_cong [OF this] g show ?thesis by simp
  next
    assume "\<exists>row. files (db ?st') = insert_or_update row (files (db st)) \<and>
      col_path row = ?Q \<and> col_id row = chosen_id e st ?Q"
    then obtain row where files': "files (db ?st') = insert_or_update row (files (db st))"
      and rp: "col_path row = ?Q" and ri: "col_id row = chosen_id e st ?Q" by blast
    show ?thesis
    proof (cases "?Q = P")
      case True
      from chosen_id_props(3) [OF inv uu, of P existing] g have "chosen_id e st P = r_id existing" by simp
      with ri True have ri': "col_id row = r_id existing" by simp
      have "row \<in> set (files (db ?st'))"
        unfolding files' by (rule row_in_insert_or_update)
      from getByPath_of_unique_row [OF inv' this] rp True
      have "getByPath (db ?st') P = Some (rowToRecord row)" by simp
      with ri' show ?thesis by (simp add: r_id_rowToRecord)
    next
      case False
      with fresh have fr: "\<forall>n. uuidv4 e n \<noteq> r_id existing" by simp
      have ne: "col_id row0 \<noteq> col_id row"
      proof (cases "getByPath (db st) ?Q")
        case None
        from chosen_id_fresh [OF None, of e] ri have "col_id row = uuidv4 e (uuid_calls st)" by simp
        with fr rid show ?thesis by (metis)
      next
        case (Some x)
        from getByPath_Some [OF Some] obtain rowQ
          where fq: "find (\<lambda>r. col_path r = ?Q) (files (db st)) = Some rowQ" and rq: "r_id x = col_id rowQ"
          by blast
        from find_path_Some [OF fq] have inq: "rowQ \<in> set (files (db st))" and pq: "col_path rowQ = ?Q"
          by simp_all
        from chosen_id_props(3) [OF inv uu, of ?Q x] Some have "chosen_id e st ?Q = r_id x" by simp
        with ri rq have riq: "col_id row = col_id rowQ" by simp
        from inv have d: "distinct (map col_id (files (db st)))" by (simp only: store_inv_def)
        show ?thesis
        proof
          assume "col_id row0 = col_id row"
          with riq have "col_id row0 = col_id rowQ" by simp
          from distinct_ids_eq [OF d in0 inq this] p0 pq False show False by simp
        qed
      qed
      have "row0 \<in> set (files (db ?st'))"
        unfolding files' using in0 ne by (rule other_row_in_insert_or_update)
      from getByPath_of_unique_row [OF inv' this] p0
      have "getByPath (db ?st') P = Some (rowToRecord row0)" by simp
      with rid show ?thesis by (simp add: r_id_rowToRecord)
    qed
  qed
qed

lemma indexFile_reindex_length:
  assumes inv: "store_inv (db st)" and uu: "\<forall>n. uuidv4 e n \<noteq> []"
    and g: "getByPath (db st) (path_resolve e f) = Some existing"
  shows "length (files (db (snd (indexFile e cfg st f)))) = length (files (db st))"
proof -
  let ?st' = "snd (indexFile e cfg st f)"
  let ?Q = "path_resolve e f"
  from indexFile_files [of e cfg st f] show ?thesis
  proof
    assume "files (db ?st') = files (db st)"
    then show ?thesis by simp
  next
    assume "\<exists>row. files (db ?st') = insert_or_update row (files (db st)) \<and>
      col_path row = ?Q \<and> col_id row = chosen_id e st ?Q"
    then obtain row where files': "files (db ?st') = insert_or_update row (files (db st))"
      and ri: "col_id row = chosen_id e st ?Q" by blast
    from getByPath_Some [OF g] obtain row0
      where f0: "find (\<lambda>r. col_path r = ?Q) (files (db st)) = Some row0" and rid: "r_id existing = col_id row0"
      by blast
    from find_path_Some [OF f0] have in0: "row0 \<in> set (files (db st))" by simp
    from chosen_id_props(3) [OF inv uu, of ?Q existing] g have "chosen_id e st ?Q = r_id existing" by simp
    with ri rid have "col_id row = col_id row0" by simp
    with in0 have "col_id row \<in> set (map col_id (files (db st)))"
      by (metis imageI set_map)
    then show ?thesis
      unfolding files' by (simp only: length_insert_or_update if_True)
  qed
qed


lemma indexFiles_store_inv:
  assumes "store_inv (db st)" "\<forall>c\<in>set calls. \<forall>n. uuidv4 (fst c) n \<noteq> []"
  shows "store_inv (db (indexFiles cfg calls st))"
  using assms
proof (induction calls arbitrary: st)
  case Nil
  then show ?case by simp
next
  case (Cons c calls)
  obtain e f where c: "c = (e, f)" by (cases c)
  from Cons.prems(2) c have uu: "\<forall>n. uuidv4 e n \<noteq> []" by simp
  from indexFile_store_inv [OF Cons.prems(1) uu] have "store_inv (db (snd (indexFile e cfg st f)))" .
  from Cons.IH [OF this] Cons.prems(2) show ?case
    unfolding c by simp
qed

lemma indexFiles_keeps_id:
  assumes "store_inv (db st)" "\<forall>c\<in>set calls. \<forall>n. uuidv4 (fst c) n \<noteq> []"
    and "getByPath (db st) P = Some existing"
    and "\<forall>c\<in>set calls. path_resolve (fst c) (snd c) = P \<or> (\<forall>n. uuidv4 (fst c) n \<noteq> r_id existing)"
  shows "\<exists>r. getByPath (db (indexFiles cfg calls st)) P = Some r \<and> r_id r = r_id existing"
  using assms
proof (induction calls arbitrary: st existing)
  case Nil
  then show ?case by simp
next
  case (Cons c calls)
  obtain e f where c: "c = (e, f)" by (cases c)
  let ?st' = "snd (indexFile e cfg st f)"
  from Cons.prems(2) c have uu: "\<forall>n. uuidv4 e n \<noteq> []" by simp
  from Cons.prems(4) c have fresh: "path_resolve e f = P \<or> (\<forall>n. uuidv4 e n \<noteq> r_id existing)" by simp
  from indexFile_store_inv [OF Cons.prems(1) uu] have inv': "store_inv (db ?st')" .
  from indexFile_keeps_id [OF Cons.prems(1) uu Cons.prems(3) fresh]
  obtain r where r: "getByPath (db ?st') P = Some r" "r_id r = r_id existing" by blast
  have "\<exists>r'. getByPath (db (indexFiles cfg calls ?st')) P = Some r' \<and> r_id r' = r_id r"
  proof (rule Cons.IH [OF inv' _ r(1)])
    show "\<forall>c\<in>set calls. \<forall>n. uuidv4 (fst c) n \<noteq> []" using Cons.prems(2) by simp
    show "\<forall>c\<in>set calls. path_resolve (fst c) (snd c) = P \<or> (\<forall>n. uuidv4 (fst c) n \<noteq> r_id r)"
      using Cons.prems(4) r(2) by simp
  qed
  with r(2) show ?case unfolding c by simp
qed

text \<open>
  C5. Starting from a store with one record per path (distinct ids, none empty), and
  with \<^verbatim>\<open>uuidv4\<close> never returning the empty string: after any sequence of awaited
  \<^verbatim>\<open>indexFile\<close> calls the store still has at most one record per resolved path; a path
  that has a record keeps a record with the same id through the sequence, provided
  every call either indexes that path or draws identifiers different from that id; and
  one call on a path that has a record leaves it with a record of the same id and adds
  no row (the upsert replaces the record), whatever the call's outcome.
\<close>

theorem indexFile_one_record_per_path_same_id:
  assumes "store_inv (db st)" and "\<forall>c\<in>set calls. \<forall>n. uuidv4 (fst c) n \<noteq> []"
  shows "store_inv (db (indexFiles cfg calls st)) \<and>
    (\<forall>P existing.
       getByPath (db st) P = Some existing \<and>
       (\<forall>c\<in>set calls. path_resolve (fst c) (snd c) = P \<or> (\<forall>n. uuidv4 (fst c) n \<noteq> r_id existing)) \<longrightarrow>
       (\<exists>r. getByPath (db (indexFiles cfg calls st)) P = Some r \<and> r_id r = r_id existing)) \<and>
    (\<forall>e f existing.
       (\<forall>n. uuidv4 e n \<noteq> []) \<and> getByPath (db st) (path_resolve e f) = Some existing \<longrightarrow>
       (\<exists>r. getByPath (db (snd (indexFile e cfg st f))) (path_resolve e f) = Some r \<and>
            r_id r = r_id existing) \<and>
       length (files (db (snd (indexFile e cfg st f)))) = length (files (db st)))"
proof (intro conjI allI impI)
  show "store_inv (db (indexFiles cfg calls st))"
    using assms by (rule indexFiles_store_inv)
next
  fix P existing
  assume "getByPath (db st) P = Some existing \<and>
       (\<forall>c\<in>set calls. path_resolve (fst c) (snd c) = P \<or> (\<forall>n. uuidv4 (fst c) n \<noteq> r_id existing))"
  then show "\<exists>r. getByPath (db (indexFiles cfg calls st)) P = Some r \<and> r_id r = r_id existing"
    using indexFiles_keeps_id [OF assms] by blast
next
  fix e :: env and f existing
  assume a: "(\<forall>n. uuidv4 e n \<noteq> []) \<and> getByPath (db st) (path_resolve e f) = Some existing"
  then show "\<exists>r. getByPath (db (snd (indexFile e cfg st f))) (path_resolve e f) = Some r \<and>
            r_id r = r_id existing"
    using indexFile_keeps_id [OF assms(1), of e "path_resolve e f" existing f cfg] by blast
  from a show "length (files (db (snd (indexFile e cfg st f)))) = length (files (db st))"
    using indexFile_reindex_length [OF assms(1), of e f existing cfg] by blast
qed


lemma sample_indexed_twice:
  "files (db (indexFiles sample_config
      [(sample_env NoContent, ''/docs/a.md''), (sample_env NoContent, ''/docs/a.md'')] empty_state)) =
   [\<lparr>col_id = ''uuid-x'', col_path = ''/docs/a.md'', col_filename = ''a.md'',
     col_mimetype = Some ''text/markdown'', col_size = Some 12, col_createdAt = Some ''2024-02-01'',
     col_modifiedAt = Some ''2024-02-02'', col_summary = ''summary of /docs/a.md''\<rparr>]"
  by (simp add: indexFile_def indexFile_begin_def indexFile_rest_def Let_def sample_env_def
      sample_config_def empty_state_def getByPath_def summarizeFile_def embedText_def sample_normalize
      record_of_prepared_def upsert_def ensureVectorTable_def row_of_record_def insert_or_update_def
      truthy_string_def rowToRecord_def truthy_nat_def)

theorem indexFile_one_record_per_path_same_id_witness:
  "store_inv (db (indexFiles sample_config
      [(sample_env NoContent, ''/docs/a.md''), (sample_env NoContent, ''/docs/a.md'')] empty_state)) \<and>
   map col_id (files (db (indexFiles sample_config
      [(sample_env NoContent, ''/docs/a.md''), (sample_env NoContent, ''/docs/a.md'')] empty_state))) =
     [''uuid-x'']"
proof -
  have inv: "store_inv (db empty_state)"
    by (simp add: store_inv_def empty_state_def)
  have uu: "\<forall>c\<in>set [(sample_env NoContent, ''/docs/a.md''), (sample_env NoContent, ''/docs/a.md'')].
      \<forall>n. uuidv4 (fst c) n \<noteq> []"
    by (simp add: sample_env_def)
  have ids: "map col_id (files (db (indexFiles sample_config
      [(sample_env NoContent, ''/docs/a.md''), (sample_env NoContent, ''/docs/a.md'')] empty_state))) =
     [''uuid-x'']"
    unfolding sample_indexed_twice by simp
  from indexFile_one_record_per_path_same_id [OF inv uu, of sample_config, THEN conjunct1] ids
  show ?thesis
    by (rule conjI)
qed

subsection \<open>indexPath\<close>




























end
